theory Spec2Isabelle
  imports Complex_Main "HOL-Library.Sublist" "HOL-Library.Signed_Division"
begin

text \<open>
  A storefront theme with four components for Alpine.js: the cart drawer, the product
  gallery and the announcement bar of \<^verbatim>\<open>assets/alpine-components.js\<close>, and the header
  controller \<^verbatim>\<open>alpineHeader\<close>, which comes in the second script, the one that follows
  the Tailwind configuration. Each component is a record of its fields; a method takes
  the component, and what it touches of the browser, and returns them updated.
\<close>

section \<open>JavaScript values\<close>

text \<open>
  The components compute with JavaScript numbers that are array indices and message
  counts. A number is a double: here an integer, \<open>NaN\<close>, or one of the two infinities.
  Fractions are outside the model, and the two zeros are one (nothing here divides). A sum
  or a difference is rounded as a double is: exact up to \<open>2^53\<close>, to the nearest number
  with 53 significant bits beyond, a tie going to the even one, and to an infinity from
  \<open>2^1024\<close> on. Every comparison with \<open>NaN\<close> is false.
\<close>

datatype jsnum = Num int | NaN | PosInf | NegInf

function bit_length :: "int \<Rightarrow> nat" where
  "bit_length m = (if m \<le> 0 then 0 else Suc (bit_length (m div 2)))"
  by pat_completeness auto
termination
  by (relation "measure nat") auto

declare bit_length.simps [simp del]

definition to_double :: "int \<Rightarrow> jsnum" where
  "to_double x =
     (let m = \<bar>x\<bar>
      in if m \<le> 2 ^ 53 then Num x
         else (let q = 2 ^ (bit_length m - 53);
                   d = m div q;
                   r = m mod q;
                   d' = (if 2 * r < q then d
                         else if q < 2 * r then d + 1
                         else if even d then d else d + 1);
                   m' = d' * q
               in if 2 ^ 1024 \<le> m' then (if 0 < x then PosInf else NegInf)
                  else Num (sgn x * m')))"

fun js_add :: "jsnum \<Rightarrow> jsnum \<Rightarrow> jsnum" where
  "js_add (Num a) (Num b) = to_double (a + b)"
| "js_add NaN _ = NaN"
| "js_add _ NaN = NaN"
| "js_add PosInf NegInf = NaN"
| "js_add NegInf PosInf = NaN"
| "js_add PosInf _ = PosInf"
| "js_add _ PosInf = PosInf"
| "js_add NegInf _ = NegInf"
| "js_add _ NegInf = NegInf"

fun js_sub :: "jsnum \<Rightarrow> jsnum \<Rightarrow> jsnum" where
  "js_sub (Num a) (Num b) = to_double (a - b)"
| "js_sub NaN _ = NaN"
| "js_sub _ NaN = NaN"
| "js_sub PosInf PosInf = NaN"
| "js_sub NegInf NegInf = NaN"
| "js_sub PosInf _ = PosInf"
| "js_sub _ PosInf = NegInf"
| "js_sub NegInf _ = NegInf"
| "js_sub _ NegInf = PosInf"

text \<open>
  \<^verbatim>\<open>a % b\<close>: the remainder takes the sign of the dividend and is exact; a zero divisor
  and an infinite dividend give \<open>NaN\<close>, an infinite divisor gives the dividend.
\<close>

fun js_rem :: "jsnum \<Rightarrow> jsnum \<Rightarrow> jsnum" where
  "js_rem (Num a) (Num b) = (if b = 0 then NaN else Num (a smod b))"
| "js_rem (Num a) PosInf = Num a"
| "js_rem (Num a) NegInf = Num a"
| "js_rem _ _ = NaN"

fun js_lt :: "jsnum \<Rightarrow> jsnum \<Rightarrow> bool" where
  "js_lt (Num a) (Num b) = (a < b)"
| "js_lt (Num a) PosInf = True"
| "js_lt NegInf (Num b) = True"
| "js_lt NegInf PosInf = True"
| "js_lt _ _ = False"

fun js_ge :: "jsnum \<Rightarrow> jsnum \<Rightarrow> bool" where
  "js_ge (Num a) (Num b) = (b \<le> a)"
| "js_ge (Num a) NegInf = True"
| "js_ge PosInf (Num b) = True"
| "js_ge PosInf PosInf = True"
| "js_ge PosInf NegInf = True"
| "js_ge NegInf NegInf = True"
| "js_ge _ _ = False"

fun js_gt :: "jsnum \<Rightarrow> jsnum \<Rightarrow> bool" where
  "js_gt (Num a) (Num b) = (b < a)"
| "js_gt (Num a) NegInf = True"
| "js_gt PosInf (Num b) = True"
| "js_gt PosInf NegInf = True"
| "js_gt _ _ = False"

text \<open>\<^verbatim>\<open>a === b\<close> on numbers.\<close>

fun js_num_eq :: "jsnum \<Rightarrow> jsnum \<Rightarrow> bool" where
  "js_num_eq (Num a) (Num b) = (a = b)"
| "js_num_eq PosInf PosInf = True"
| "js_num_eq NegInf NegInf = True"
| "js_num_eq _ _ = False"

datatype jsval =
    JUndefined
  | JNull
  | JBool bool
  | JNum jsnum
  | JStr string
  | JArr "jsval list"
  | JObj "(string \<times> jsval) list"

text \<open>Truthiness, as \<^verbatim>\<open>||\<close> and \<^verbatim>\<open>if\<close> test it.\<close>

fun truthy :: "jsval \<Rightarrow> bool" where
  "truthy JUndefined = False"
| "truthy JNull = False"
| "truthy (JBool b) = b"
| "truthy (JNum (Num i)) = (i \<noteq> 0)"
| "truthy (JNum NaN) = False"
| "truthy (JNum PosInf) = True"
| "truthy (JNum NegInf) = True"
| "truthy (JStr s) = (s \<noteq> [])"
| "truthy (JArr _) = True"
| "truthy (JObj _) = True"

text \<open>\<^verbatim>\<open>a || b\<close>\<close>

definition js_or :: "jsval \<Rightarrow> jsval \<Rightarrow> jsval" where
  "js_or a b = (if truthy a then a else b)"

text \<open>\<^verbatim>\<open>xs[i]\<close> on an array: \<^verbatim>\<open>undefined\<close> outside the array, no exception.\<close>

fun js_index :: "jsval list \<Rightarrow> jsnum \<Rightarrow> jsval" where
  "js_index xs (Num i) = (if 0 \<le> i \<and> i < int (length xs) then xs ! nat i else JUndefined)"
| "js_index xs NaN = JUndefined"
| "js_index xs PosInf = JUndefined"
| "js_index xs NegInf = JUndefined"


section \<open>Product gallery\<close>

text \<open>
  \<^verbatim>\<open>productGallery(images)\<close>: the images are any JavaScript values; the getters are
  functions of the component. An array has fewer than \<open>2^32\<close> elements, so its length
  and \<^verbatim>\<open>length - 1\<close> are exact.
\<close>

record productGallery =
  currentIndex :: jsnum
  images :: "jsval list"

definition productGallery_new :: "jsval list \<Rightarrow> productGallery" where
  "productGallery_new imgs = \<lparr> currentIndex = Num 0, images = imgs \<rparr>"

definition currentImage :: "productGallery \<Rightarrow> jsval" where
  "currentImage g = js_or (js_index (images g) (currentIndex g)) JNull"

definition hasMultipleImages :: "productGallery \<Rightarrow> bool" where
  "hasMultipleImages g = (length (images g) > 1)"

definition isFirst :: "productGallery \<Rightarrow> bool" where
  "isFirst g = js_num_eq (currentIndex g) (Num 0)"

definition isLast :: "productGallery \<Rightarrow> bool" where
  "isLast g = js_num_eq (currentIndex g) (Num (int (length (images g)) - 1))"

definition productGallery_next :: "productGallery \<Rightarrow> productGallery" where
  "productGallery_next g =
     (if \<not> isLast g then g\<lparr> currentIndex := js_add (currentIndex g) (Num 1) \<rparr>
      else g\<lparr> currentIndex := Num 0 \<rparr>)"

definition productGallery_previous :: "productGallery \<Rightarrow> productGallery" where
  "productGallery_previous g =
     (if \<not> isFirst g then g\<lparr> currentIndex := js_sub (currentIndex g) (Num 1) \<rparr>
      else g\<lparr> currentIndex := Num (int (length (images g)) - 1) \<rparr>)"

definition productGallery_goTo :: "jsnum \<Rightarrow> productGallery \<Rightarrow> productGallery" where
  "productGallery_goTo index g =
     (if js_ge index (Num 0) \<and> js_lt index (Num (int (length (images g))))
      then g\<lparr> currentIndex := index \<rparr>
      else g)"


section \<open>Header controller\<close>

text \<open>
  The header component (\<^verbatim>\<open>alpineHeader\<close>) reads the scroll position from the window
  (\<^verbatim>\<open>window.pageYOffset\<close>) and from the document element
  (\<^verbatim>\<open>document.documentElement.scrollTop\<close>). Scroll positions are real numbers (every double that is not
  \<open>NaN\<close> is one, and the order is the same); \<^verbatim>\<open>offsetTop\<close> is an integer.
\<close>

record alpineHeader =
  mobileMenuOpen :: bool
  isSticky :: bool
  stickyEnabled :: bool
  headerOffsetTop :: int

record page =
  pageYOffset :: real
  scrollTop :: real
  header_offsetTop :: int
  scrollListeners :: nat
  keydownListeners :: nat

definition alpineHeader_new :: "bool \<Rightarrow> alpineHeader" where
  "alpineHeader_new sticky =
     \<lparr> mobileMenuOpen = False, isSticky = False, stickyEnabled = sticky, headerOffsetTop = 0 \<rparr>"

text \<open>
  \<^verbatim>\<open>init\<close>: the header's position is stored in the next tick, before any later event is
  handled; the scroll listener is added only when \<^verbatim>\<open>stickyEnabled\<close> holds.
\<close>

definition alpineHeader_init :: "alpineHeader \<times> page \<Rightarrow> alpineHeader \<times> page" where
  "alpineHeader_init = (\<lambda>(h, p).
     (h\<lparr> headerOffsetTop := header_offsetTop p \<rparr>,
      p\<lparr> scrollListeners := (if stickyEnabled h then Suc (scrollListeners p) else scrollListeners p),
         keydownListeners := Suc (keydownListeners p) \<rparr>))"

definition handleScroll :: "alpineHeader \<Rightarrow> page \<Rightarrow> alpineHeader" where
  "handleScroll h p =
     (let scrollTop = (if pageYOffset p \<noteq> 0 then pageYOffset p else scrollTop p)
      in h\<lparr> isSticky := (real_of_int (headerOffsetTop h) \<le> scrollTop) \<rparr>)"

text \<open>
  The page scrolls to \<open>y\<close>: the window and the document element report that position,
  and the scroll event runs the listeners that \<^verbatim>\<open>init\<close> has added.
\<close>

definition scroll_event :: "real \<Rightarrow> alpineHeader \<times> page \<Rightarrow> alpineHeader \<times> page" where
  "scroll_event y = (\<lambda>(h, p).
     (let p' = p\<lparr> pageYOffset := y, scrollTop := y \<rparr>
      in (if scrollListeners p' > 0 then handleScroll h p' else h, p')))"


section \<open>Cart drawer\<close>

text \<open>
  The two cart endpoints are outside the program: \<^verbatim>\<open>fetch\<close> is a parameter that maps a
  request to its outcome, a transport error or a response. A response carries its status
  and the result of \<^verbatim>\<open>response.json()\<close>, \<open>None\<close> when the body cannot be read.
  A call of \<^verbatim>\<open>refreshCart\<close> or \<^verbatim>\<open>updateQuantity\<close> is one step from the state it starts in
  to the state it ends in: handlers that run while the call waits for the network are not
  part of it.
\<close>

record request =
  url :: string
  http_method :: string
  payload :: "jsval option"

record response =
  status :: nat
  json :: "jsval option"

datatype fetch_result = TransportError | Response response

text \<open>\<^verbatim>\<open>response.ok\<close>: the status is in the range 200 to 299.\<close>

definition ok :: "response \<Rightarrow> bool" where
  "ok r = (200 \<le> status r \<and> status r \<le> 299)"

record cartDrawer =
  isOpen :: bool
  isLoading :: bool
  cart :: jsval
  error :: jsval

text \<open>What the drawer does to the window: the events it dispatches and its console output.\<close>

record window =
  dispatched :: "(string \<times> jsval) list"
  console :: "string list"

definition cartDrawer_new :: cartDrawer where
  "cartDrawer_new = \<lparr> isOpen = False, isLoading = False, cart = JNull, error = JNull \<rparr>"

definition refreshCart_catch :: "cartDrawer \<times> window \<Rightarrow> cartDrawer \<times> window" where
  "refreshCart_catch = (\<lambda>(s, w).
     (s\<lparr> error := JStr ''Unable to load cart. Please refresh the page.'' \<rparr>,
      w\<lparr> console := console w @ [''Error fetching cart:''] \<rparr>))"

definition cart_finally :: "cartDrawer \<times> window \<Rightarrow> cartDrawer \<times> window" where
  "cart_finally = (\<lambda>(s, w). (s\<lparr> isLoading := False \<rparr>, w))"

definition refreshCart ::
  "(request \<Rightarrow> fetch_result) \<Rightarrow> cartDrawer \<times> window \<Rightarrow> cartDrawer \<times> window" where
  "refreshCart fetch = (\<lambda>(s, w).
     (let s1 = s\<lparr> isLoading := True, error := JNull \<rparr>
      in case fetch \<lparr> url = ''/cart.js'', http_method = ''GET'', payload = None \<rparr> of
           TransportError \<Rightarrow> cart_finally (refreshCart_catch (s1, w))
         | Response r \<Rightarrow>
             if \<not> ok r then cart_finally (refreshCart_catch (s1, w))
             else (case json r of
                     None \<Rightarrow> cart_finally (refreshCart_catch (s1, w))
                   | Some c \<Rightarrow> cart_finally (s1\<lparr> cart := c \<rparr>, w))))"

definition change_request :: "jsval \<Rightarrow> jsval \<Rightarrow> request" where
  "change_request lineItemKey quantity =
     \<lparr> url = ''/cart/change.js'', http_method = ''POST'',
       payload = Some (JObj [(''id'', lineItemKey), (''quantity'', quantity)]) \<rparr>"

definition updateQuantity_catch :: "cartDrawer \<times> window \<Rightarrow> cartDrawer \<times> window" where
  "updateQuantity_catch = (\<lambda>(s, w).
     (s\<lparr> error := JStr ''Unable to update cart. Please try again.'' \<rparr>,
      w\<lparr> console := console w @ [''Error updating cart:''] \<rparr>))"

definition updateQuantity ::
  "(request \<Rightarrow> fetch_result) \<Rightarrow> jsval \<Rightarrow> jsval \<Rightarrow> cartDrawer \<times> window \<Rightarrow> cartDrawer \<times> window" where
  "updateQuantity fetch lineItemKey quantity = (\<lambda>(s, w).
     (let s1 = s\<lparr> isLoading := True, error := JNull \<rparr>
      in case fetch (change_request lineItemKey quantity) of
           TransportError \<Rightarrow> cart_finally (updateQuantity_catch (s1, w))
         | Response r \<Rightarrow>
             if \<not> ok r then cart_finally (updateQuantity_catch (s1, w))
             else (case json r of
                     None \<Rightarrow> cart_finally (updateQuantity_catch (s1, w))
                   | Some updatedCart \<Rightarrow>
                       cart_finally
                         (s1\<lparr> cart := updatedCart \<rparr>,
                          w\<lparr> dispatched := dispatched w @ [(''cart:updated'', updatedCart)] \<rparr>))))"

definition removeItem ::
  "(request \<Rightarrow> fetch_result) \<Rightarrow> jsval \<Rightarrow> cartDrawer \<times> window \<Rightarrow> cartDrawer \<times> window" where
  "removeItem fetch lineItemKey = updateQuantity fetch lineItemKey (JNum (Num 0))"

section \<open>Browser: cookie store and interval timers\<close>

text \<open>
  The announcement bar talks to two services of the browser. They are not part of the
  program, so they are modelled here from their standards.

  \<^bold>\<open>Cookies\<close> (RFC 6265 and its revision, RFC 6265bis: the parsing of a cookie
  string, the storage model, the retrieval of the cookie string). Assigning a string to
  \<^verbatim>\<open>document.cookie\<close> is ignored when the string holds a control character other than
  the tab. Otherwise the name-value pair is read up to the first \<open>;\<close> and split at its
  first \<open>=\<close>; a pair without \<open>=\<close> is a value without a name. Blanks and tabs are
  trimmed from both ends of the name and of the value. The assignment is ignored when
  name and value together are longer than 4096 bytes or both are empty; otherwise the
  cookie replaces the stored cookie of the same name, keeping its position, or is added.
  Reading \<^verbatim>\<open>document.cookie\<close> joins the cookies that have not expired with \<open>; \<close>,
  each as \<open>name=value\<close>, or as its value when it has no name. A string is a list of
  bytes. All cookies belong to one domain and to the path \<open>/\<close>, the only path the
  program writes, and all can be read and replaced by scripts. The \<^verbatim>\<open>expires\<close>
  attribute is kept as a number of milliseconds, and the text before it as the string
  the program builds.

  \<^bold>\<open>Timers\<close>. \<^verbatim>\<open>setInterval\<close> returns a fresh handle, a positive integer;
  \<^verbatim>\<open>clearInterval\<close> removes a handle from the active ones.
\<close>

record cookie =
  cookie_name :: string
  cookie_value :: string
  cookie_expires :: int

record browser =
  cookies :: "cookie list"
  clock :: int
  intervals :: "(nat \<times> jsnum) list"
  lastHandle :: nat
  el_keydown :: nat

definition serialize :: "cookie \<Rightarrow> string" where
  "serialize c =
     (if cookie_name c = [] then cookie_value c else cookie_name c @ ''='' @ cookie_value c)"

fun join :: "string \<Rightarrow> string list \<Rightarrow> string" where
  "join sep [] = []"
| "join sep [x] = x"
| "join sep (x # y # ys) = x @ sep @ join sep (y # ys)"

definition visible :: "browser \<Rightarrow> cookie list" where
  "visible b = filter (\<lambda>c. clock b < cookie_expires c) (cookies b)"

definition document_cookie :: "browser \<Rightarrow> string" where
  "document_cookie b = join ''; '' (map serialize (visible b))"

definition is_wsp :: "char \<Rightarrow> bool" where
  "is_wsp c = (c = CHR '' '' \<or> c = CHR 0x09)"

definition trim :: "string \<Rightarrow> string" where
  "trim s = rev (dropWhile is_wsp (rev (dropWhile is_wsp s)))"

fun store :: "cookie \<Rightarrow> cookie list \<Rightarrow> cookie list" where
  "store c [] = [c]"
| "store c (d # ds) = (if cookie_name d = cookie_name c then c # ds else d # store c ds)"

definition is_ctl :: "char \<Rightarrow> bool" where
  "is_ctl c = ((of_char c :: nat) < 32 \<and> (of_char c :: nat) \<noteq> 9 \<or> (of_char c :: nat) = 127)"

definition document_cookie_assign :: "string \<Rightarrow> int \<Rightarrow> browser \<Rightarrow> browser" where
  "document_cookie_assign text expires b =
     (if \<exists>c \<in> set text. is_ctl c then b
      else (let pair = takeWhile (\<lambda>c. c \<noteq> CHR '';'') text;
                n = trim (if CHR ''='' \<in> set pair
                          then takeWhile (\<lambda>c. c \<noteq> CHR ''='') pair else []);
                v = trim (if CHR ''='' \<in> set pair
                          then tl (dropWhile (\<lambda>c. c \<noteq> CHR ''='') pair) else pair)
            in if 4096 < length n + length v then b
               else if n = [] \<and> v = [] then b
               else b\<lparr> cookies :=
                      store \<lparr> cookie_name = n, cookie_value = v, cookie_expires = expires \<rparr>
                        (cookies b) \<rparr>))"

definition setInterval :: "jsnum \<Rightarrow> browser \<Rightarrow> nat \<times> browser" where
  "setInterval delay b =
     (let h = Suc (lastHandle b)
      in (h, b\<lparr> intervals := intervals b @ [(h, delay)], lastHandle := h \<rparr>))"

definition clearInterval :: "nat \<Rightarrow> browser \<Rightarrow> browser" where
  "clearInterval h b = b\<lparr> intervals := filter (\<lambda>t. fst t \<noteq> h) (intervals b) \<rparr>"

text \<open>
  \<^verbatim>\<open>s.split(sep)\<close>: the parts of \<open>s\<close> between the occurrences of \<open>sep\<close>, found from
  left to right. \<open>split_parts\<close> returns the first part and the list of the others.
\<close>

function split_parts :: "string \<Rightarrow> string \<Rightarrow> string \<times> string list" where
  "split_parts sep [] = ([], [])"
| "split_parts sep (c # cs) =
     (if sep \<noteq> [] \<and> prefix sep (c # cs)
      then ([], (case split_parts sep (drop (length sep) (c # cs)) of (p, ps) \<Rightarrow> p # ps))
      else (case split_parts sep cs of (p, ps) \<Rightarrow> (c # p, ps)))"
  by pat_completeness auto
termination
  by (relation "measure (\<lambda>(sep, s). length s)") auto

definition js_split :: "string \<Rightarrow> string \<Rightarrow> string list" where
  "js_split sep s =
     (if sep = [] then map (\<lambda>c. [c]) s
      else (case split_parts sep s of (p, ps) \<Rightarrow> p # ps))"


section \<open>Announcement bar\<close>

text \<open>
  \<^verbatim>\<open>alpineAnnouncement(totalMessages, rotationSpeed, sectionId, showCloseButton)\<close>, the
  version with pausing and \<^verbatim>\<open>goTo\<close>. The methods that set or clear the timer take the
  browser as well.
\<close>

record alpineAnnouncement =
  currentIndex :: jsnum
  totalMessages :: jsnum
  rotationSpeed :: jsnum
  intervalId :: "nat option"
  isPaused :: bool
  isClosed :: bool
  sectionId :: string
  showCloseButton :: bool

definition alpineAnnouncement_new :: "jsnum \<Rightarrow> jsnum \<Rightarrow> string \<Rightarrow> bool \<Rightarrow> alpineAnnouncement" where
  "alpineAnnouncement_new messages speed sid closeButton =
     \<lparr> currentIndex = Num 0, totalMessages = messages, rotationSpeed = speed, intervalId = None,
       isPaused = False, isClosed = False, sectionId = sid, showCloseButton = closeButton \<rparr>"

text \<open>\<^verbatim>\<open>if (this.intervalId)\<close>: \<^verbatim>\<open>null\<close> and the number 0 are falsy.\<close>

fun handle_truthy :: "nat option \<Rightarrow> bool" where
  "handle_truthy None = False"
| "handle_truthy (Some h) = (h \<noteq> 0)"

definition getCookie :: "string \<Rightarrow> browser \<Rightarrow> string option" where
  "getCookie name b =
     (let value = ''; '' @ document_cookie b;
          parts = js_split (''; '' @ name @ ''='') value
      in if length parts = 2 then Some (hd (js_split '';'' (last parts))) else None)"

text \<open>
  \<^verbatim>\<open>setCookie\<close> assigns the string \<open>name=value;expires=<date>;path=/\<close> to
  \<^verbatim>\<open>document.cookie\<close>. The date is \<open>days\<close> days after the current time, and
  \<^verbatim>\<open>toUTCString\<close> writes it to the second.
\<close>

definition expires_at :: "int \<Rightarrow> int \<Rightarrow> int" where
  "expires_at now days = (now + days * 24 * 60 * 60 * 1000) div 1000 * 1000"

definition setCookie :: "string \<Rightarrow> string \<Rightarrow> int \<Rightarrow> browser \<Rightarrow> browser" where
  "setCookie name val days b =
     document_cookie_assign (name @ ''='' @ val) (expires_at (clock b) days) b"

definition closed_cookie :: "alpineAnnouncement \<Rightarrow> string" where
  "closed_cookie r = ''announcement-'' @ sectionId r @ ''-closed''"

definition alpineAnnouncement_next :: "alpineAnnouncement \<Rightarrow> alpineAnnouncement" where
  "alpineAnnouncement_next r =
     r\<lparr> currentIndex := js_rem (js_add (currentIndex r) (Num 1)) (totalMessages r) \<rparr>"

definition alpineAnnouncement_previous :: "alpineAnnouncement \<Rightarrow> alpineAnnouncement" where
  "alpineAnnouncement_previous r =
     r\<lparr> currentIndex :=
          js_rem (js_add (js_sub (currentIndex r) (Num 1)) (totalMessages r)) (totalMessages r) \<rparr>"

text \<open>The callback that \<^verbatim>\<open>startRotation\<close> hands to \<^verbatim>\<open>setInterval\<close>.\<close>

definition rotation_tick :: "alpineAnnouncement \<Rightarrow> alpineAnnouncement" where
  "rotation_tick r = (if \<not> isPaused r then alpineAnnouncement_next r else r)"

definition startRotation :: "alpineAnnouncement \<times> browser \<Rightarrow> alpineAnnouncement \<times> browser" where
  "startRotation = (\<lambda>(r, b).
     (let b1 = (if handle_truthy (intervalId r) then clearInterval (the (intervalId r)) b else b);
          (h, b2) = setInterval (rotationSpeed r) b1
      in (r\<lparr> intervalId := Some h \<rparr>, b2)))"

definition stopRotation :: "alpineAnnouncement \<times> browser \<Rightarrow> alpineAnnouncement \<times> browser" where
  "stopRotation = (\<lambda>(r, b).
     (if handle_truthy (intervalId r)
      then (r\<lparr> intervalId := None \<rparr>, clearInterval (the (intervalId r)) b)
      else (r, b)))"

definition pauseRotation :: "alpineAnnouncement \<Rightarrow> alpineAnnouncement" where
  "pauseRotation r = r\<lparr> isPaused := True \<rparr>"

definition resumeRotation :: "alpineAnnouncement \<Rightarrow> alpineAnnouncement" where
  "resumeRotation r = r\<lparr> isPaused := False \<rparr>"

definition alpineAnnouncement_init :: "alpineAnnouncement \<times> browser \<Rightarrow> alpineAnnouncement \<times> browser" where
  "alpineAnnouncement_init = (\<lambda>(r, b).
     (let r1 = (if showCloseButton r
                then r\<lparr> isClosed := (getCookie (closed_cookie r) b = Some ''true'') \<rparr>
                else r);
          (r2, b2) = (if \<not> isClosed r1 \<and> js_gt (totalMessages r1) (Num 1)
                      then startRotation (r1, b) else (r1, b))
      in (r2, b2\<lparr> el_keydown := Suc (el_keydown b2) \<rparr>)))"

definition alpineAnnouncement_goTo ::
  "jsnum \<Rightarrow> alpineAnnouncement \<times> browser \<Rightarrow> alpineAnnouncement \<times> browser" where
  "alpineAnnouncement_goTo index = (\<lambda>(r, b).
     (if js_ge index (Num 0) \<and> js_lt index (totalMessages r)
      then (let r1 = r\<lparr> currentIndex := index \<rparr>
            in if js_gt (totalMessages r1) (Num 1) then startRotation (stopRotation (r1, b))
               else (r1, b))
      else (r, b)))"

definition closeAnnouncement :: "alpineAnnouncement \<times> browser \<Rightarrow> alpineAnnouncement \<times> browser" where
  "closeAnnouncement = (\<lambda>(r, b).
     (let (r1, b1) = stopRotation (r\<lparr> isClosed := True \<rparr>, b)
      in (r1, setCookie (closed_cookie r1) ''true'' 30 b1)))"

definition destroy :: "alpineAnnouncement \<times> browser \<Rightarrow> alpineAnnouncement \<times> browser" where
  "destroy = stopRotation"

text \<open>The timer with handle \<open>h\<close> fires: its callback runs if the timer is still active.\<close>

definition interval_fires :: "nat \<Rightarrow> alpineAnnouncement \<times> browser \<Rightarrow> alpineAnnouncement \<times> browser" where
  "interval_fires h = (\<lambda>(r, b).
     (if h \<in> fst ` set (intervals b) then (rotation_tick r, b) else (r, b)))"


section \<open>Well-formed cookie stores and runs of the announcement bar\<close>

text \<open>
  What every cookie store built by \<open>document_cookie_assign\<close> satisfies: one cookie for a
  name, and no \<open>;\<close> in the text of a cookie.
\<close>

definition store_wf :: "cookie list \<Rightarrow> bool" where
  "store_wf cs =
     (distinct (map cookie_name cs) \<and> (\<forall>c \<in> set cs. CHR '';'' \<notin> set (serialize c)))"

text \<open>In \<^verbatim>\<open>document.cookie\<close> the text of the cookie begins with \<open>name=\<close>.\<close>

definition reads_as :: "string \<Rightarrow> cookie \<Rightarrow> bool" where
  "reads_as name c = prefix (name @ ''='') (serialize c)"

text \<open>
  A store in which a cookie written as \<open>name=value\<close> can be told from the others: it is
  well-formed, and no cookie stored under another name reads as \<open>name=\<close>. The cookie is
  stored under the part of \<open>name\<close> before its first \<open>=\<close>.
\<close>

definition store_ready :: "string \<Rightarrow> cookie list \<Rightarrow> bool" where
  "store_ready name cs =
     (store_wf cs \<and>
      (\<forall>c \<in> set cs. cookie_name c \<noteq> takeWhile (\<lambda>x. x \<noteq> CHR ''='') name \<longrightarrow> \<not> reads_as name c))"

text \<open>
  A section id whose cookie the browser keeps as it is written: no \<open>;\<close>, no control
  character, no blank or tab next to its first \<open>=\<close>, and at most 4072 bytes, so that
  \<open>announcement-<sectionId>-closed\<close> and \<open>true\<close> have no more than 4096.
\<close>

definition blank_at_equals :: "string \<Rightarrow> bool" where
  "blank_at_equals sid =
     (let before = takeWhile (\<lambda>c. c \<noteq> CHR ''='') sid;
          after = tl (dropWhile (\<lambda>c. c \<noteq> CHR ''='') sid)
      in CHR ''='' \<in> set sid \<and>
         ((before \<noteq> [] \<and> is_wsp (last before)) \<or> (after \<noteq> [] \<and> is_wsp (hd after))))"

definition kept_as_written :: "string \<Rightarrow> bool" where
  "kept_as_written sid =
     (CHR '';'' \<notin> set sid \<and> (\<forall>c \<in> set sid. \<not> is_ctl c) \<and> length sid \<le> 4072
      \<and> \<not> blank_at_equals sid)"

text \<open>The string that \<open>getCookie\<close> splits, when there is a cookie to read.\<close>

definition blocks :: "cookie list \<Rightarrow> string" where
  "blocks cs = concat (map (\<lambda>c. ''; '' @ serialize c) cs)"

text \<open>The separator that \<open>getCookie\<close> splits at.\<close>

definition sep_of :: "string \<Rightarrow> string" where
  "sep_of n = ''; '' @ n @ ''=''"

text \<open>The cookie store says that the bar of this section was closed.\<close>

definition jar_says_closed :: "alpineAnnouncement \<Rightarrow> browser \<Rightarrow> bool" where
  "jar_says_closed r b = (getCookie (closed_cookie r) b = Some ''true'')"

text \<open>What an operation keeps: the parameters of the component and the cookie store.\<close>

definition same_setup :: "alpineAnnouncement \<times> browser \<Rightarrow> alpineAnnouncement \<times> browser \<Rightarrow> bool" where
  "same_setup = (\<lambda>(r, b) (r', b').
     totalMessages r' = totalMessages r \<and> showCloseButton r' = showCloseButton r
     \<and> sectionId r' = sectionId r \<and> cookies b' = cookies b \<and> clock b' = clock b)"

text \<open>A page that has just been loaded for the first time: no cookie, no timer.\<close>

definition empty_browser :: browser where
  "empty_browser = \<lparr> cookies = [], clock = 0, intervals = [], lastHandle = 0, el_keydown = 0 \<rparr>"

text \<open>
  The operations on the announcement bar. A run carries, beside the component and the
  browser, a flag that records whether the rotation has been stopped by \<^verbatim>\<open>stopRotation\<close>
  or \<^verbatim>\<open>destroy\<close> since it was last started.
\<close>

datatype rot_op =
    Init | StartRotation | StopRotation | PauseRotation | ResumeRotation
  | Next | Previous | GoTo jsnum | CloseAnnouncement | Destroy

type_synonym rot_state = "alpineAnnouncement \<times> browser \<times> bool"

definition with_flag ::
  "bool \<Rightarrow> alpineAnnouncement \<times> browser \<Rightarrow> rot_state" where
  "with_flag stopped = (\<lambda>(r, b). (r, b, stopped))"

fun step :: "rot_op \<Rightarrow> rot_state \<Rightarrow> rot_state" where
  "step Init (r, b, stopped) =
     (case alpineAnnouncement_init (r, b) of
        (r', b') \<Rightarrow>
          (r', b', if \<not> isClosed r' \<and> js_gt (totalMessages r') (Num 1) then False else stopped))"
| "step StartRotation (r, b, stopped) = with_flag False (startRotation (r, b))"
| "step StopRotation (r, b, stopped) = with_flag True (stopRotation (r, b))"
| "step PauseRotation (r, b, stopped) = (pauseRotation r, b, stopped)"
| "step ResumeRotation (r, b, stopped) = (resumeRotation r, b, stopped)"
| "step Next (r, b, stopped) = (alpineAnnouncement_next r, b, stopped)"
| "step Previous (r, b, stopped) = (alpineAnnouncement_previous r, b, stopped)"
| "step (GoTo i) (r, b, stopped) =
     with_flag
       (if js_ge i (Num 0) \<and> js_lt i (totalMessages r) \<and> js_gt (totalMessages r) (Num 1)
        then False else stopped)
       (alpineAnnouncement_goTo i (r, b))"
| "step CloseAnnouncement (r, b, stopped) = with_flag stopped (closeAnnouncement (r, b))"
| "step Destroy (r, b, stopped) = with_flag True (destroy (r, b))"

fun run :: "rot_op list \<Rightarrow> rot_state \<Rightarrow> rot_state" where
  "run [] c = c"
| "run (x # xs) c = run xs (step x c)"

text \<open>
  The guard of \<^verbatim>\<open>init\<close> on starting the rotation, asked of a direct call of
  \<^verbatim>\<open>startRotation\<close>; and \<^verbatim>\<open>goTo\<close> on a bar that is not closed.
\<close>

fun guarded :: "rot_op \<Rightarrow> rot_state \<Rightarrow> bool" where
  "guarded StartRotation (r, b, stopped) = (\<not> isClosed r \<and> js_gt (totalMessages r) (Num 1))"
| "guarded (GoTo i) (r, b, stopped) = (\<not> isClosed r)"
| "guarded _ _ = True"

fun all_guarded :: "rot_op list \<Rightarrow> rot_state \<Rightarrow> bool" where
  "all_guarded [] c = True"
| "all_guarded (x # xs) c = (guarded x c \<and> all_guarded xs (step x c))"

text \<open>The state after \<^verbatim>\<open>init\<close> on a new component.\<close>

definition attached :: "jsnum \<Rightarrow> jsnum \<Rightarrow> string \<Rightarrow> bool \<Rightarrow> browser \<Rightarrow> rot_state" where
  "attached messages speed sid closeButton b =
     step Init (alpineAnnouncement_new messages speed sid closeButton, b, False)"

text \<open>Rotation is active: more than one message, not closed, not stopped.\<close>

definition rotation_active :: "rot_state \<Rightarrow> bool" where
  "rotation_active = (\<lambda>(r, b, stopped).
     js_gt (totalMessages r) (Num 1) \<and> \<not> isClosed r \<and> \<not> stopped)"

definition timer_held :: "rot_state \<Rightarrow> bool" where
  "timer_held = (\<lambda>(r, b, stopped). intervalId r \<noteq> None)"


text \<open>
  The two invariants of a run: the timer is held whenever the rotation is active; and,
  for guarded runs, the timer is held exactly then, no handle is 0, and a bar whose
  cookie says closed is closed.
\<close>

definition weak_inv :: "rot_state \<Rightarrow> bool" where
  "weak_inv c = (rotation_active c \<longrightarrow> timer_held c)"

definition strong_inv :: "rot_state \<Rightarrow> bool" where
  "strong_inv = (\<lambda>(r, b, stopped).
     intervalId r \<noteq> Some 0
     \<and> (intervalId r \<noteq> None \<longleftrightarrow> js_gt (totalMessages r) (Num 1) \<and> \<not> isClosed r \<and> \<not> stopped)
     \<and> (showCloseButton r \<and> jar_says_closed r b \<longrightarrow> isClosed r))"


section \<open>Properties\<close>

subsection \<open>Cart drawer\<close>

text \<open>
  Claim C1. When the call that \<^verbatim>\<open>updateQuantity\<close> issues fails, by a transport error or
  by a response whose status is not 2xx, the cached cart is the one from before the call,
  the error field is not \<^verbatim>\<open>null\<close> and no event is dispatched. When it succeeds, the cart
  is the body of the response, and one \<^verbatim>\<open>cart:updated\<close> event carrying that body is
  dispatched.
\<close>

theorem updateQuantity_outcome:
  assumes "updateQuantity fetch k q (s, w) = (s', w')"
  shows "(fetch (change_request k q) = TransportError
            \<or> (\<exists>r. fetch (change_request k q) = Response r \<and> \<not> ok r) \<longrightarrow>
          cart s' = cart s \<and> error s' \<noteq> JNull \<and> dispatched w' = dispatched w)
       \<and> (\<forall>r c. fetch (change_request k q) = Response r \<and> ok r \<and> json r = Some c \<longrightarrow>
            cart s' = c \<and> error s' = JNull
            \<and> dispatched w' = dispatched w @ [(''cart:updated'', c)])"
  using assms
  by (auto simp add: updateQuantity_def updateQuantity_catch_def cart_finally_def Let_def
      split: fetch_result.splits option.splits if_splits)

text \<open>The theorem at a response with status 500 and at one with status 200.\<close>

theorem updateQuantity_outcome_witness:
  "cart (fst (updateQuantity (\<lambda>_. Response \<lparr> status = 500, json = None \<rparr>) (JStr ''k1'') (JNum (Num 2))
       (cartDrawer_new\<lparr> cart := JObj [(''item_count'', JNum (Num 1))] \<rparr>, \<lparr> dispatched = [], console = [] \<rparr>)))
     = JObj [(''item_count'', JNum (Num 1))]
   \<and> error (fst (updateQuantity (\<lambda>_. Response \<lparr> status = 500, json = None \<rparr>) (JStr ''k1'') (JNum (Num 2))
       (cartDrawer_new\<lparr> cart := JObj [(''item_count'', JNum (Num 1))] \<rparr>, \<lparr> dispatched = [], console = [] \<rparr>)))
     \<noteq> JNull
   \<and> cart (fst (updateQuantity (\<lambda>_. Response \<lparr> status = 200, json = Some (JObj [(''item_count'', JNum (Num 2))]) \<rparr>)
       (JStr ''k1'') (JNum (Num 2))
       (cartDrawer_new\<lparr> cart := JObj [(''item_count'', JNum (Num 1))] \<rparr>, \<lparr> dispatched = [], console = [] \<rparr>)))
     = JObj [(''item_count'', JNum (Num 2))]
   \<and> dispatched (snd (updateQuantity (\<lambda>_. Response \<lparr> status = 200, json = Some (JObj [(''item_count'', JNum (Num 2))]) \<rparr>)
       (JStr ''k1'') (JNum (Num 2))
       (cartDrawer_new\<lparr> cart := JObj [(''item_count'', JNum (Num 1))] \<rparr>, \<lparr> dispatched = [], console = [] \<rparr>)))
     = [(''cart:updated'', JObj [(''item_count'', JNum (Num 2))])]"
proof -
  let ?s = "cartDrawer_new\<lparr> cart := JObj [(''item_count'', JNum (Num 1))] \<rparr>"
  let ?w = "\<lparr> dispatched = [], console = [] \<rparr>"
  let ?bad = "\<lambda>_::request. Response \<lparr> status = 500, json = None \<rparr>"
  let ?good = "\<lambda>_::request. Response \<lparr> status = 200, json = Some (JObj [(''item_count'', JNum (Num 2))]) \<rparr>"
  let ?k = "JStr ''k1''" and ?q = "JNum (Num 2)"
  have nok: "\<not> ok \<lparr> status = 500, json = None \<rparr>" by (simp add: ok_def)
  have isok: "ok \<lparr> status = 200, json = Some (JObj [(''item_count'', JNum (Num 2))]) \<rparr>"
    by (simp add: ok_def)
  have A: "cart (fst (updateQuantity ?bad ?k ?q (?s, ?w))) = cart ?s
      \<and> error (fst (updateQuantity ?bad ?k ?q (?s, ?w))) \<noteq> JNull"
    using updateQuantity_outcome [of ?bad ?k ?q ?s ?w "fst (updateQuantity ?bad ?k ?q (?s, ?w))"
        "snd (updateQuantity ?bad ?k ?q (?s, ?w))"] nok
    by auto
  have B: "cart (fst (updateQuantity ?good ?k ?q (?s, ?w))) = JObj [(''item_count'', JNum (Num 2))]
      \<and> dispatched (snd (updateQuantity ?good ?k ?q (?s, ?w))) =
          dispatched ?w @ [(''cart:updated'', JObj [(''item_count'', JNum (Num 2))])]"
    using updateQuantity_outcome [of ?good ?k ?q ?s ?w "fst (updateQuantity ?good ?k ?q (?s, ?w))"
        "snd (updateQuantity ?good ?k ?q (?s, ?w))"] isok
    by auto
  from A B show ?thesis by simp
qed

text \<open>
  Claim C2. A successful \<^verbatim>\<open>refreshCart\<close> replaces the cached cart by the parsed response
  and leaves the error field \<^verbatim>\<open>null\<close>; a failed one keeps the cached cart and sets the
  error field to a message for the user.
\<close>

theorem refreshCart_outcome:
  assumes "refreshCart fetch (s, w) = (s', w')"
  shows "(\<forall>r c. fetch \<lparr> url = ''/cart.js'', http_method = ''GET'', payload = None \<rparr> = Response r
              \<and> ok r \<and> json r = Some c \<longrightarrow>
            cart s' = c \<and> error s' = JNull)
       \<and> (fetch \<lparr> url = ''/cart.js'', http_method = ''GET'', payload = None \<rparr> = TransportError
            \<or> (\<exists>r. fetch \<lparr> url = ''/cart.js'', http_method = ''GET'', payload = None \<rparr> = Response r
                   \<and> \<not> ok r) \<longrightarrow>
          cart s' = cart s \<and> error s' = JStr ''Unable to load cart. Please refresh the page.''
          \<and> error s' \<noteq> JNull)"
  using assms
  by (auto simp add: refreshCart_def refreshCart_catch_def cart_finally_def Let_def
      split: fetch_result.splits option.splits if_splits)

text \<open>The theorem at a transport error and at a response with status 200.\<close>

theorem refreshCart_outcome_witness:
  "cart (fst (refreshCart (\<lambda>_. Response \<lparr> status = 200, json = Some (JObj [(''item_count'', JNum (Num 2))]) \<rparr>)
       (cartDrawer_new, \<lparr> dispatched = [], console = [] \<rparr>))) = JObj [(''item_count'', JNum (Num 2))]
   \<and> error (fst (refreshCart (\<lambda>_. Response \<lparr> status = 200, json = Some (JObj [(''item_count'', JNum (Num 2))]) \<rparr>)
       (cartDrawer_new, \<lparr> dispatched = [], console = [] \<rparr>))) = JNull
   \<and> cart (fst (refreshCart (\<lambda>_. TransportError)
       (cartDrawer_new\<lparr> cart := JObj [(''item_count'', JNum (Num 1))] \<rparr>, \<lparr> dispatched = [], console = [] \<rparr>)))
       = JObj [(''item_count'', JNum (Num 1))]
   \<and> error (fst (refreshCart (\<lambda>_. TransportError)
       (cartDrawer_new\<lparr> cart := JObj [(''item_count'', JNum (Num 1))] \<rparr>, \<lparr> dispatched = [], console = [] \<rparr>)))
       \<noteq> JNull"
proof -
  let ?s = "cartDrawer_new\<lparr> cart := JObj [(''item_count'', JNum (Num 1))] \<rparr>"
  let ?w = "\<lparr> dispatched = [], console = [] \<rparr>"
  let ?bad = "\<lambda>_::request. TransportError"
  let ?good = "\<lambda>_::request. Response \<lparr> status = 200, json = Some (JObj [(''item_count'', JNum (Num 2))]) \<rparr>"
  have isok: "ok \<lparr> status = 200, json = Some (JObj [(''item_count'', JNum (Num 2))]) \<rparr>"
    by (simp add: ok_def)
  have A: "cart (fst (refreshCart ?bad (?s, ?w))) = cart ?s
      \<and> error (fst (refreshCart ?bad (?s, ?w))) \<noteq> JNull"
    using refreshCart_outcome [of ?bad ?s ?w "fst (refreshCart ?bad (?s, ?w))"
        "snd (refreshCart ?bad (?s, ?w))"]
    by auto
  have B: "cart (fst (refreshCart ?good (cartDrawer_new, ?w))) = JObj [(''item_count'', JNum (Num 2))]
      \<and> error (fst (refreshCart ?good (cartDrawer_new, ?w))) = JNull"
    using refreshCart_outcome [of ?good cartDrawer_new ?w "fst (refreshCart ?good (cartDrawer_new, ?w))"
        "snd (refreshCart ?good (cartDrawer_new, ?w))"] isok
    by auto
  from A B show ?thesis by simp
qed

text \<open>
  Claim C9. When \<^verbatim>\<open>refreshCart\<close> or \<^verbatim>\<open>updateQuantity\<close> has run, \<^verbatim>\<open>isLoading\<close> is
  false, whatever the outcome of the network call.
\<close>

theorem isLoading_reset:
  "\<not> isLoading (fst (refreshCart fetch (s, w)))
   \<and> \<not> isLoading (fst (updateQuantity fetch k q (s, w)))"
  by (simp add: refreshCart_def updateQuantity_def refreshCart_catch_def updateQuantity_catch_def
      cart_finally_def Let_def split: fetch_result.splits option.splits)

text \<open>The theorem at a transport error and at a successful change.\<close>

theorem isLoading_reset_witness:
  "\<not> isLoading (fst (refreshCart (\<lambda>_. TransportError)
        (cartDrawer_new\<lparr> isLoading := True \<rparr>, \<lparr> dispatched = [], console = [] \<rparr>)))
   \<and> \<not> isLoading (fst (updateQuantity (\<lambda>_. Response \<lparr> status = 200, json = Some JNull \<rparr>)
        (JStr ''k1'') (JNum (Num 0))
        (cartDrawer_new\<lparr> isLoading := True \<rparr>, \<lparr> dispatched = [], console = [] \<rparr>)))"
  using isLoading_reset [of "\<lambda>_. TransportError" "cartDrawer_new\<lparr> isLoading := True \<rparr>"
      "\<lparr> dispatched = [], console = [] \<rparr>"]
    isLoading_reset [of "\<lambda>_. Response \<lparr> status = 200, json = Some JNull \<rparr>"
      "cartDrawer_new\<lparr> isLoading := True \<rparr>" "\<lparr> dispatched = [], console = [] \<rparr>"
      "JStr ''k1''" "JNum (Num 0)"]
  by blast


subsection \<open>Cycling through messages and images\<close>

lemma smod_nonneg: "0 \<le> a \<Longrightarrow> 0 < b \<Longrightarrow> (a::int) smod b = a mod b"
  by (simp add: smod_int_alt_def sgn_if)

lemma mod_succ_step: "((i + int k) mod n + 1) mod n = (i + int (Suc k)) mod (n::int)"
proof -
  have "(i + int (Suc k)) = (i + int k) + 1" by simp
  then show ?thesis by (metis mod_add_left_eq)
qed

lemma to_double_exact: "\<bar>x\<bar> \<le> 2 ^ 53 \<Longrightarrow> to_double x = Num x"
  by (simp add: to_double_def)

lemma to_double_tie: "to_double (2 ^ 53 + 1) = Num (2 ^ 53)"
  by code_simp

lemma announcement_next_index:
  assumes "totalMessages r = Num n" "1 \<le> n" "n \<le> 2 ^ 53"
    "alpineAnnouncement.currentIndex r = Num i" "0 \<le> i" "i < n"
  shows "(alpineAnnouncement_next ^^ k) r = r\<lparr> alpineAnnouncement.currentIndex := Num ((i + int k) mod n) \<rparr>"
proof (induction k)
  case 0
  from assms show ?case by simp
next
  case (Suc k)
  have j: "0 \<le> (i + int k) mod n" "(i + int k) mod n < n" using assms by simp_all
  then have "\<bar>(i + int k) mod n + 1\<bar> \<le> 2 ^ 53" using assms(3) by linarith
  then have d: "to_double ((i + int k) mod n + 1) = Num ((i + int k) mod n + 1)"
    by (rule to_double_exact)
  from j have "((i + int k) mod n + 1) smod n = ((i + int k) mod n + 1) mod n"
    using assms by (intro smod_nonneg) auto
  also have "\<dots> = (i + int (Suc k)) mod n"
    by (rule mod_succ_step)
  finally show ?case using Suc assms d
    by (simp add: alpineAnnouncement_next_def)
qed

text \<open>With \<open>2^53 + 2\<close> messages the index climbs to \<open>2^53\<close> and stays there.\<close>

lemma announcement_next_stuck:
  assumes "totalMessages r = Num (2 ^ 53 + 2)" "alpineAnnouncement.currentIndex r = Num 0"
  shows "(alpineAnnouncement_next ^^ k) r =
           r\<lparr> alpineAnnouncement.currentIndex := Num (min (int k) (2 ^ 53)) \<rparr>"
proof (induction k)
  case 0
  from assms show ?case by simp
next
  case (Suc k)
  let ?j = "min (int k) (2 ^ 53)"
  have step: "js_rem (js_add (Num ?j) (Num 1)) (Num (2 ^ 53 + 2)) = Num (min (int (Suc k)) (2 ^ 53))"
  proof (cases "int k < 2 ^ 53")
    case True
    then have j: "?j = int k" by simp
    have "\<bar>int k + 1\<bar> \<le> 2 ^ 53" using True by linarith
    then have d: "to_double (int k + 1) = Num (int k + 1)" by (rule to_double_exact)
    have "(int k + 1) smod (2 ^ 53 + 2) = (int k + 1) mod (2 ^ 53 + 2)"
      by (intro smod_nonneg) simp_all
    also have "\<dots> = int k + 1" using True by simp
    finally have m: "(int k + 1) smod (2 ^ 53 + 2) = int k + 1" .
    have "min (int (Suc k)) (2 ^ 53) = int k + 1" using True by simp
    with j d m show ?thesis by simp
  next
    case False
    then have j: "?j = 2 ^ 53" by simp
    have "(2 ^ 53 :: int) smod (2 ^ 53 + 2) = 2 ^ 53 mod (2 ^ 53 + 2)"
      by (intro smod_nonneg) simp_all
    also have "\<dots> = 2 ^ 53" by simp
    finally have m: "(2 ^ 53 :: int) smod (2 ^ 53 + 2) = 2 ^ 53" .
    have "min (int (Suc k)) (2 ^ 53) = 2 ^ 53" using False by simp
    with j to_double_tie m show ?thesis by simp
  qed
  show ?case using Suc assms step
    by (simp add: alpineAnnouncement_next_def)
qed

lemma gallery_next_index:
  assumes "int (length (images g)) = n" "1 \<le> n" "n \<le> 2 ^ 53"
    "productGallery.currentIndex g = Num i" "0 \<le> i" "i < n"
  shows "(productGallery_next ^^ k) g = g\<lparr> productGallery.currentIndex := Num ((i + int k) mod n) \<rparr>"
proof (induction k)
  case 0
  from assms show ?case by simp
next
  case (Suc k)
  let ?j = "(i + int k) mod n"
  have j: "0 \<le> ?j" "?j < n" using assms by simp_all
  then have "\<bar>?j + 1\<bar> \<le> 2 ^ 53" using assms(3) by linarith
  then have d: "to_double (?j + 1) = Num (?j + 1)" by (rule to_double_exact)
  have step: "(if ?j = n - 1 then 0 else ?j + 1) = (i + int (Suc k)) mod n"
  proof (cases "?j = n - 1")
    case True
    have "(i + int (Suc k)) mod n = (?j + 1) mod n"
      by (rule mod_succ_step [symmetric])
    also have "\<dots> = 0" using True by simp
    finally show ?thesis using True by simp
  next
    case False
    have "(i + int (Suc k)) mod n = (?j + 1) mod n"
      by (rule mod_succ_step [symmetric])
    also have "\<dots> = ?j + 1" using False j by simp
    finally show ?thesis using False by simp
  qed
  show ?case using Suc assms step d
    by (auto simp add: productGallery_next_def isLast_def)
qed

text \<open>
  Claim C3 says that for every count \<open>n \<ge> 1\<close> the calls of \<^verbatim>\<open>next\<close> are back at 0
  after exactly \<open>n\<close> calls. With \<open>2^53 + 2\<close> messages the announcement bar is not: at
  the index \<open>2^53\<close> the sum \<open>2^53 + 1\<close> is rounded to \<open>2^53\<close>, and after
  \<open>2^53 + 2\<close> calls the index is \<open>2^53\<close>.
\<close>

theorem next_cycles_counterexample:
  "alpineAnnouncement.currentIndex ((alpineAnnouncement_next ^^ nat (2 ^ 53 + 2))
      (alpineAnnouncement_new (Num (2 ^ 53 + 2)) (Num 5000) ''a1'' True)) = Num (2 ^ 53)
   \<and> alpineAnnouncement.currentIndex ((alpineAnnouncement_next ^^ nat (2 ^ 53 + 2))
      (alpineAnnouncement_new (Num (2 ^ 53 + 2)) (Num 5000) ''a1'' True)) \<noteq> Num 0"
proof -
  let ?r = "alpineAnnouncement_new (Num (2 ^ 53 + 2)) (Num 5000) ''a1'' True"
  have r: "totalMessages ?r = Num (2 ^ 53 + 2)" "alpineAnnouncement.currentIndex ?r = Num 0"
    by (simp_all add: alpineAnnouncement_new_def)
  have "min (int (nat (2 ^ 53 + 2))) (2 ^ 53) = (2 ^ 53 :: int)" by simp
  then have "alpineAnnouncement.currentIndex ((alpineAnnouncement_next ^^ nat (2 ^ 53 + 2)) ?r) =
      Num (2 ^ 53)"
    using announcement_next_stuck [OF r, of "nat (2 ^ 53 + 2)"] by simp
  then show ?thesis by simp
qed

text \<open>
  Claim C3, amended. For a count \<open>n\<close> with \<open>1 \<le> n \<le> 2^53\<close> and starting from index
  0, the calls of \<^verbatim>\<open>next\<close>, in the announcement bar and in the gallery with \<open>n\<close>
  images, stay within \<open>0 \<le> i < n\<close>, are back at 0 after exactly \<open>n\<close> calls, and are
  not at 0 after fewer calls. Every gallery is within the bound: an array has fewer than
  \<open>2^32\<close> elements.
\<close>

theorem next_cycles:
  assumes "1 \<le> n" "n \<le> 2 ^ 53"
  shows "(totalMessages r = Num n \<and> alpineAnnouncement.currentIndex r = Num 0 \<longrightarrow>
            (\<forall>k. \<exists>i. alpineAnnouncement.currentIndex ((alpineAnnouncement_next ^^ k) r) = Num i
                        \<and> 0 \<le> i \<and> i < n)
          \<and> alpineAnnouncement.currentIndex ((alpineAnnouncement_next ^^ nat n) r) = Num 0
          \<and> (\<forall>k. 0 < k \<and> k < nat n \<longrightarrow>
                 alpineAnnouncement.currentIndex ((alpineAnnouncement_next ^^ k) r) \<noteq> Num 0))
       \<and> (int (length (images g)) = n \<and> productGallery.currentIndex g = Num 0 \<longrightarrow>
            (\<forall>k. \<exists>i. productGallery.currentIndex ((productGallery_next ^^ k) g) = Num i
                        \<and> 0 \<le> i \<and> i < n)
          \<and> productGallery.currentIndex ((productGallery_next ^^ nat n) g) = Num 0
          \<and> (\<forall>k. 0 < k \<and> k < nat n \<longrightarrow>
                 productGallery.currentIndex ((productGallery_next ^^ k) g) \<noteq> Num 0))"
proof -
  have small: "int k mod n \<noteq> 0" if "0 < k" "k < nat n" for k
  proof -
    from that have "int k mod n = int k" by simp
    with that show ?thesis by simp
  qed
  have full: "int (nat n) mod n = 0" using assms by simp
  have range: "0 \<le> int k mod n \<and> int k mod n < n" for k using assms by simp
  have rot: "alpineAnnouncement.currentIndex ((alpineAnnouncement_next ^^ k) r) = Num (int k mod n)"
    if "totalMessages r = Num n" "alpineAnnouncement.currentIndex r = Num 0" for k
    using announcement_next_index [of r n 0 k] that assms by simp
  have gal: "productGallery.currentIndex ((productGallery_next ^^ k) g) = Num (int k mod n)"
    if "int (length (images g)) = n" "productGallery.currentIndex g = Num 0" for k
    using gallery_next_index [of g n 0 k] that assms by simp
  show ?thesis
  proof (intro conjI impI allI)
    fix k assume "totalMessages r = Num n \<and> alpineAnnouncement.currentIndex r = Num 0"
    then show "\<exists>i. alpineAnnouncement.currentIndex ((alpineAnnouncement_next ^^ k) r) = Num i \<and> 0 \<le> i \<and> i < n"
      using rot [of k] range [of k] by blast
  next
    assume "totalMessages r = Num n \<and> alpineAnnouncement.currentIndex r = Num 0"
    then show "alpineAnnouncement.currentIndex ((alpineAnnouncement_next ^^ nat n) r) = Num 0"
      using rot [of "nat n"] full by simp
  next
    fix k assume "totalMessages r = Num n \<and> alpineAnnouncement.currentIndex r = Num 0" "0 < k \<and> k < nat n"
    then show "alpineAnnouncement.currentIndex ((alpineAnnouncement_next ^^ k) r) \<noteq> Num 0"
      using rot [of k] small [of k] by simp
  next
    fix k assume "int (length (images g)) = n \<and> productGallery.currentIndex g = Num 0"
    then show "\<exists>i. productGallery.currentIndex ((productGallery_next ^^ k) g) = Num i \<and> 0 \<le> i \<and> i < n"
      using gal [of k] range [of k] by blast
  next
    assume "int (length (images g)) = n \<and> productGallery.currentIndex g = Num 0"
    then show "productGallery.currentIndex ((productGallery_next ^^ nat n) g) = Num 0"
      using gal [of "nat n"] full by simp
  next
    fix k assume "int (length (images g)) = n \<and> productGallery.currentIndex g = Num 0" "0 < k \<and> k < nat n"
    then show "productGallery.currentIndex ((productGallery_next ^^ k) g) \<noteq> Num 0"
      using gal [of k] small [of k] by simp
  qed
qed

text \<open>The theorem for three messages and three images.\<close>

theorem next_cycles_witness:
  "(1::int) \<le> 3
   \<and> alpineAnnouncement.currentIndex ((alpineAnnouncement_next ^^ nat 3)
        (alpineAnnouncement_new (Num 3) (Num 5000) ''a1'' True)) = Num 0
   \<and> alpineAnnouncement.currentIndex ((alpineAnnouncement_next ^^ 2)
        (alpineAnnouncement_new (Num 3) (Num 5000) ''a1'' True)) \<noteq> Num 0
   \<and> productGallery.currentIndex ((productGallery_next ^^ nat 3)
        (productGallery_new [JStr ''a.jpg'', JStr ''b.jpg'', JStr ''c.jpg''])) = Num 0
   \<and> productGallery.currentIndex ((productGallery_next ^^ 2)
        (productGallery_new [JStr ''a.jpg'', JStr ''b.jpg'', JStr ''c.jpg''])) \<noteq> Num 0"
proof -
  let ?r = "alpineAnnouncement_new (Num 3) (Num 5000) ''a1'' True"
  let ?g = "productGallery_new [JStr ''a.jpg'', JStr ''b.jpg'', JStr ''c.jpg'']"
  have n: "(1::int) \<le> 3" by simp
  have k: "0 < (2::nat) \<and> 2 < nat 3" by simp
  have r: "totalMessages ?r = Num 3 \<and> alpineAnnouncement.currentIndex ?r = Num 0"
    by (simp add: alpineAnnouncement_new_def)
  have g: "int (length (images ?g)) = 3 \<and> productGallery.currentIndex ?g = Num 0"
    by (simp add: productGallery_new_def)
  have m: "(3::int) \<le> 2 ^ 53" by simp
  from next_cycles [OF n m, of ?r ?g] r g k n show ?thesis by blast
qed

text \<open>
  Claim C4. \<^verbatim>\<open>goTo(i)\<close> with \<open>i < 0\<close> or \<open>i\<close> not below the count changes nothing, in
  the gallery and in the announcement bar, where both bounds are tested; within the
  bounds it sets \<^verbatim>\<open>currentIndex\<close> to \<open>i\<close>.
\<close>

theorem goTo_bounds:
  "(i < 0 \<or> int (length (images g)) \<le> i \<longrightarrow> productGallery_goTo (Num i) g = g)
   \<and> (0 \<le> i \<and> i < int (length (images g)) \<longrightarrow>
        productGallery.currentIndex (productGallery_goTo (Num i) g) = Num i)
   \<and> (totalMessages r = Num n \<and> (i < 0 \<or> n \<le> i) \<longrightarrow>
        alpineAnnouncement_goTo (Num i) (r, b) = (r, b))
   \<and> (totalMessages r = Num n \<and> 0 \<le> i \<and> i < n \<longrightarrow>
        alpineAnnouncement.currentIndex (fst (alpineAnnouncement_goTo (Num i) (r, b))) = Num i)"
  by (auto simp add: productGallery_goTo_def alpineAnnouncement_goTo_def startRotation_def
      stopRotation_def setInterval_def Let_def split: prod.splits)

text \<open>The theorem at the indices 2, 1 and -1.\<close>

theorem goTo_bounds_witness:
  "productGallery_goTo (Num 2) (productGallery_new [JStr ''a.jpg'', JStr ''b.jpg'']) =
     productGallery_new [JStr ''a.jpg'', JStr ''b.jpg'']
   \<and> productGallery.currentIndex
        (productGallery_goTo (Num 1) (productGallery_new [JStr ''a.jpg'', JStr ''b.jpg''])) = Num 1
   \<and> alpineAnnouncement_goTo (Num (- 1))
        (alpineAnnouncement_new (Num 3) (Num 5000) ''a1'' True,
         \<lparr> cookies = [], clock = 0, intervals = [], lastHandle = 0, el_keydown = 0 \<rparr>) =
        (alpineAnnouncement_new (Num 3) (Num 5000) ''a1'' True,
         \<lparr> cookies = [], clock = 0, intervals = [], lastHandle = 0, el_keydown = 0 \<rparr>)
   \<and> alpineAnnouncement.currentIndex (fst (alpineAnnouncement_goTo (Num 2)
        (alpineAnnouncement_new (Num 3) (Num 5000) ''a1'' True,
         \<lparr> cookies = [], clock = 0, intervals = [], lastHandle = 0, el_keydown = 0 \<rparr>))) = Num 2"
  using goTo_bounds [of 2 "productGallery_new [JStr ''a.jpg'', JStr ''b.jpg'']"
      "alpineAnnouncement_new (Num 3) (Num 5000) ''a1'' True" 3
      "\<lparr> cookies = [], clock = 0, intervals = [], lastHandle = 0, el_keydown = 0 \<rparr>"]
    goTo_bounds [of 1 "productGallery_new [JStr ''a.jpg'', JStr ''b.jpg'']"
      "alpineAnnouncement_new (Num 3) (Num 5000) ''a1'' True" 3
      "\<lparr> cookies = [], clock = 0, intervals = [], lastHandle = 0, el_keydown = 0 \<rparr>"]
    goTo_bounds [of "- 1" "productGallery_new [JStr ''a.jpg'', JStr ''b.jpg'']"
      "alpineAnnouncement_new (Num 3) (Num 5000) ''a1'' True" 3
      "\<lparr> cookies = [], clock = 0, intervals = [], lastHandle = 0, el_keydown = 0 \<rparr>"]
  by (simp add: productGallery_new_def alpineAnnouncement_new_def)


subsection \<open>Pausing the rotation\<close>

lemma next_iter_isPaused: "isPaused ((alpineAnnouncement_next ^^ k) r) = isPaused r"
  by (induction k) (simp_all add: alpineAnnouncement_next_def)

lemma tick_unpaused_iter:
  "\<not> isPaused r \<Longrightarrow> (rotation_tick ^^ k) r = (alpineAnnouncement_next ^^ k) r"
  by (induction k) (simp_all add: rotation_tick_def next_iter_isPaused)

text \<open>
  Claim C6. While \<^verbatim>\<open>isPaused\<close> holds, a firing of the rotation timer changes neither
  \<^verbatim>\<open>currentIndex\<close> nor \<^verbatim>\<open>intervalId\<close>, and the timer stays active; pausing and resuming
  keep \<^verbatim>\<open>intervalId\<close>. After \<^verbatim>\<open>resumeRotation\<close> every firing is a call of \<^verbatim>\<open>next\<close>, which
  moves the index when there is more than one message (and no more than \<open>2^53\<close>).
\<close>

theorem paused_tick_retains:
  "(isPaused r \<longrightarrow> rotation_tick r = r \<and> interval_fires h (r, b) = (r, b))
   \<and> rotation_tick (pauseRotation r) = pauseRotation r
   \<and> intervalId (pauseRotation r) = intervalId r
   \<and> intervalId (resumeRotation r) = intervalId r
   \<and> (rotation_tick ^^ k) (resumeRotation r) = (alpineAnnouncement_next ^^ k) (resumeRotation r)
   \<and> alpineAnnouncement.currentIndex (rotation_tick (resumeRotation r)) =
        js_rem (js_add (alpineAnnouncement.currentIndex r) (Num 1)) (totalMessages r)
   \<and> (totalMessages r = Num n \<and> 1 < n \<and> n \<le> 2 ^ 53
        \<and> alpineAnnouncement.currentIndex r = Num i \<and> 0 \<le> i \<and> i < n \<longrightarrow>
        alpineAnnouncement.currentIndex (rotation_tick (resumeRotation r)) = Num ((i + 1) mod n)
        \<and> alpineAnnouncement.currentIndex (rotation_tick (resumeRotation r)) \<noteq> Num i)"
proof -
  have a: "isPaused r \<longrightarrow> rotation_tick r = r \<and> interval_fires h (r, b) = (r, b)"
    by (simp add: rotation_tick_def interval_fires_def)
  have b: "rotation_tick (pauseRotation r) = pauseRotation r"
    by (simp add: rotation_tick_def pauseRotation_def)
  have c: "intervalId (pauseRotation r) = intervalId r" "intervalId (resumeRotation r) = intervalId r"
    by (simp_all add: pauseRotation_def resumeRotation_def)
  have d: "(rotation_tick ^^ k) (resumeRotation r) = (alpineAnnouncement_next ^^ k) (resumeRotation r)"
    using tick_unpaused_iter [of "resumeRotation r" k] by (simp add: resumeRotation_def)
  have e: "alpineAnnouncement.currentIndex (rotation_tick (resumeRotation r)) =
        js_rem (js_add (alpineAnnouncement.currentIndex r) (Num 1)) (totalMessages r)"
    by (simp add: rotation_tick_def resumeRotation_def alpineAnnouncement_next_def)
  have f: "alpineAnnouncement.currentIndex (rotation_tick (resumeRotation r)) = Num ((i + 1) mod n)
        \<and> alpineAnnouncement.currentIndex (rotation_tick (resumeRotation r)) \<noteq> Num i"
    if h: "totalMessages r = Num n \<and> 1 < n \<and> n \<le> 2 ^ 53
        \<and> alpineAnnouncement.currentIndex r = Num i \<and> 0 \<le> i \<and> i < n"
  proof -
    from h have s: "(i + 1) smod n = (i + 1) mod n" by (intro smod_nonneg) auto
    from h have "\<bar>i + 1\<bar> \<le> 2 ^ 53" by linarith
    then have t: "to_double (i + 1) = Num (i + 1)" by (rule to_double_exact)
    have "(i + 1) mod n \<noteq> i"
    proof (cases "i + 1 = n")
      case True
      with h show ?thesis by auto
    next
      case False
      with h have "(i + 1) mod n = i + 1" by simp
      then show ?thesis by simp
    qed
    with e h s t show ?thesis by simp
  qed
  from a b c d e f show ?thesis by blast
qed

text \<open>The theorem for a bar of three messages that is paused while its timer runs.\<close>

theorem paused_tick_retains_witness:
  "isPaused (pauseRotation (fst (alpineAnnouncement_init
      (alpineAnnouncement_new (Num 3) (Num 5000) ''a1'' True, empty_browser))))
   \<and> intervalId (pauseRotation (fst (alpineAnnouncement_init
      (alpineAnnouncement_new (Num 3) (Num 5000) ''a1'' True, empty_browser)))) = Some 1
   \<and> interval_fires 1
       (pauseRotation (fst (alpineAnnouncement_init
          (alpineAnnouncement_new (Num 3) (Num 5000) ''a1'' True, empty_browser))),
        snd (alpineAnnouncement_init
          (alpineAnnouncement_new (Num 3) (Num 5000) ''a1'' True, empty_browser))) =
       (pauseRotation (fst (alpineAnnouncement_init
          (alpineAnnouncement_new (Num 3) (Num 5000) ''a1'' True, empty_browser))),
        snd (alpineAnnouncement_init
          (alpineAnnouncement_new (Num 3) (Num 5000) ''a1'' True, empty_browser)))
   \<and> alpineAnnouncement.currentIndex (rotation_tick (resumeRotation
        (pauseRotation (fst (alpineAnnouncement_init
          (alpineAnnouncement_new (Num 3) (Num 5000) ''a1'' True, empty_browser)))))) = Num 1"
proof -
  let ?c = "alpineAnnouncement_init (alpineAnnouncement_new (Num 3) (Num 5000) ''a1'' True, empty_browser)"
  let ?r = "pauseRotation (fst ?c)"
  have p: "isPaused ?r" by (simp add: pauseRotation_def)
  have t: "intervalId ?r = Some 1" by code_simp
  have m: "totalMessages ?r = Num 3" "alpineAnnouncement.currentIndex ?r = Num 0" by code_simp+
  then have h: "totalMessages ?r = Num 3 \<and> (1::int) < 3 \<and> (3::int) \<le> 2 ^ 53
      \<and> alpineAnnouncement.currentIndex ?r = Num 0 \<and> (0::int) \<le> 0 \<and> (0::int) < 3"
    by simp
  note T = paused_tick_retains [of ?r 1 "snd ?c" 1 3 0]
  from T p have A: "interval_fires 1 (?r, snd ?c) = (?r, snd ?c)" by blast
  from T h have "alpineAnnouncement.currentIndex (rotation_tick (resumeRotation ?r)) = Num ((0 + 1) mod 3)"
    by blast
  then have B: "alpineAnnouncement.currentIndex (rotation_tick (resumeRotation ?r)) = Num 1"
    by simp
  from p t A B show ?thesis by blast
qed


subsection \<open>Sticky header\<close>

text \<open>
  Claim C8. With \<^verbatim>\<open>stickyEnabled\<close>, a scroll event sets \<^verbatim>\<open>isSticky\<close> to true exactly when
  the scroll offset is at least the recorded \<^verbatim>\<open>headerOffsetTop\<close>: with an offset of 200,
  scrolling to 199 gives false and scrolling to 200 gives true.
\<close>

theorem handleScroll_threshold:
  "(isSticky (handleScroll h p) \<longleftrightarrow>
      real_of_int (headerOffsetTop h) \<le> (if pageYOffset p \<noteq> 0 then pageYOffset p else scrollTop p))
   \<and> (stickyEnabled h \<longrightarrow>
        (isSticky (fst (scroll_event y (alpineHeader_init (h, p)))) \<longleftrightarrow>
           real_of_int (header_offsetTop p) \<le> y))
   \<and> (stickyEnabled h \<and> header_offsetTop p = 200 \<longrightarrow>
        \<not> isSticky (fst (scroll_event 199 (alpineHeader_init (h, p))))
        \<and> isSticky (fst (scroll_event 200 (alpineHeader_init (h, p)))))"
  by (auto simp add: handleScroll_def scroll_event_def alpineHeader_init_def Let_def)

text \<open>The theorem for a header at offset 200.\<close>

theorem handleScroll_threshold_witness:
  "stickyEnabled (alpineHeader_new True)
   \<and> \<not> isSticky (fst (scroll_event 199 (alpineHeader_init (alpineHeader_new True,
        \<lparr> pageYOffset = 0, scrollTop = 0, header_offsetTop = 200, scrollListeners = 0, keydownListeners = 0 \<rparr>))))
   \<and> isSticky (fst (scroll_event 200 (alpineHeader_init (alpineHeader_new True,
        \<lparr> pageYOffset = 0, scrollTop = 0, header_offsetTop = 200, scrollListeners = 0, keydownListeners = 0 \<rparr>))))"
  using handleScroll_threshold [of "alpineHeader_new True"
      "\<lparr> pageYOffset = 0, scrollTop = 0, header_offsetTop = 200, scrollListeners = 0, keydownListeners = 0 \<rparr>" 0]
  by (simp add: alpineHeader_new_def)


subsection \<open>Current image\<close>

text \<open>
  Claim C10 says that \<^verbatim>\<open>currentImage\<close> returns the element at \<^verbatim>\<open>currentIndex\<close> whenever
  the index is within bounds. For an array whose only element is the empty string it
  returns \<^verbatim>\<open>null\<close>, because \<^verbatim>\<open>||\<close> replaces every falsy element.
\<close>

theorem currentImage_counterexample:
  "(0::int) < int (length [JStr '''']) \<and>
   currentImage \<lparr> productGallery.currentIndex = Num 0, images = [JStr ''''] \<rparr> \<noteq> [JStr ''''] ! 0"
  by (simp add: currentImage_def js_or_def)

text \<open>
  Claim C10, amended. \<^verbatim>\<open>currentImage\<close> returns the element at \<^verbatim>\<open>currentIndex\<close> when the
  index is within bounds and the element is truthy; it returns \<^verbatim>\<open>null\<close> when the element
  is falsy, when the index is out of bounds (so for every index of an empty array) and
  when the index is \<open>NaN\<close> or infinite. It never raises.
\<close>

theorem currentImage_total:
  "(productGallery.currentIndex g = Num i \<and> 0 \<le> i \<and> i < int (length (images g)) \<and> truthy (images g ! nat i) \<longrightarrow>
      currentImage g = images g ! nat i)
   \<and> (productGallery.currentIndex g = Num i \<and> 0 \<le> i \<and> i < int (length (images g)) \<and> \<not> truthy (images g ! nat i) \<longrightarrow>
      currentImage g = JNull)
   \<and> (productGallery.currentIndex g = Num i \<and> (i < 0 \<or> int (length (images g)) \<le> i) \<longrightarrow>
      currentImage g = JNull)
   \<and> (productGallery.currentIndex g = NaN \<longrightarrow> currentImage g = JNull)
   \<and> (productGallery.currentIndex g = PosInf \<longrightarrow> currentImage g = JNull)
   \<and> (productGallery.currentIndex g = NegInf \<longrightarrow> currentImage g = JNull)"
  by (auto simp add: currentImage_def js_or_def)

text \<open>The theorem at one input for each case.\<close>

theorem currentImage_total_witness:
  "currentImage \<lparr> productGallery.currentIndex = Num 1, images = [JStr ''a.jpg'', JStr ''b.jpg''] \<rparr> = JStr ''b.jpg''
   \<and> currentImage \<lparr> productGallery.currentIndex = Num 0, images = [JStr ''''] \<rparr> = JNull
   \<and> currentImage \<lparr> productGallery.currentIndex = Num 2, images = [JStr ''a.jpg'', JStr ''b.jpg''] \<rparr> = JNull
   \<and> currentImage \<lparr> productGallery.currentIndex = Num 0, images = [] \<rparr> = JNull"
  using currentImage_total [of "\<lparr> productGallery.currentIndex = Num 1, images = [JStr ''a.jpg'', JStr ''b.jpg''] \<rparr>" 1]
    currentImage_total [of "\<lparr> productGallery.currentIndex = Num 0, images = [JStr ''''] \<rparr>" 0]
    currentImage_total [of "\<lparr> productGallery.currentIndex = Num 2, images = [JStr ''a.jpg'', JStr ''b.jpg''] \<rparr>" 2]
    currentImage_total [of "\<lparr> productGallery.currentIndex = Num 0, images = [] \<rparr>" 0]
  by simp

subsection \<open>Effects of the operations of the announcement bar\<close>

text \<open>
  What each operation does to the fields that the invariants speak of: the timer handle,
  \<^verbatim>\<open>isClosed\<close>, the parameters, and the cookie store.
\<close>

lemma jar_says_closed_cong:
  "sectionId r' = sectionId r \<Longrightarrow> cookies b' = cookies b \<Longrightarrow> clock b' = clock b \<Longrightarrow>
   jar_says_closed r' b' = jar_says_closed r b"
  by (simp add: jar_says_closed_def closed_cookie_def getCookie_def document_cookie_def visible_def)

lemma startRotation_effect:
  "startRotation (r, b) = (r', b') \<Longrightarrow>
     same_setup (r, b) (r', b') \<and> (\<exists>h. intervalId r' = Some (Suc h)) \<and> isClosed r' = isClosed r"
  by (auto simp add: same_setup_def startRotation_def setInterval_def Let_def clearInterval_def
      split: if_splits)

lemma stopRotation_effect:
  "stopRotation (r, b) = (r', b') \<Longrightarrow>
     same_setup (r, b) (r', b') \<and> (intervalId r \<noteq> Some 0 \<longrightarrow> intervalId r' = None)
     \<and> isClosed r' = isClosed r"
  by (cases "intervalId r")
     (auto simp add: same_setup_def stopRotation_def clearInterval_def split: if_splits)

lemma init_effect:
  assumes "alpineAnnouncement_init (r, b) = (r', b')"
  shows "same_setup (r, b) (r', b') \<and>
      (isClosed r' = (if showCloseButton r then jar_says_closed r b else isClosed r)) \<and>
      (\<not> isClosed r' \<and> js_gt (totalMessages r) (Num 1) \<longrightarrow> (\<exists>h. intervalId r' = Some (Suc h))) \<and>
      (\<not> (\<not> isClosed r' \<and> js_gt (totalMessages r) (Num 1)) \<longrightarrow> intervalId r' = intervalId r)"
proof -
  define r1 where "r1 = (if showCloseButton r
                then r\<lparr> isClosed := (getCookie (closed_cookie r) b = Some ''true'') \<rparr>
                else r)"
  have r1: "totalMessages r1 = totalMessages r" "showCloseButton r1 = showCloseButton r"
    "sectionId r1 = sectionId r" "intervalId r1 = intervalId r"
    "isClosed r1 = (if showCloseButton r then jar_says_closed r b else isClosed r)"
    by (simp_all add: r1_def jar_says_closed_def)
  obtain r2 b2 where s: "startRotation (r1, b) = (r2, b2)" by (cases "startRotation (r1, b)")
  note e = startRotation_effect [OF s]
  show ?thesis
  proof (cases "\<not> isClosed r1 \<and> js_gt (totalMessages r1) (Num 1)")
    case True
    with assms s have "r' = r2" "b' = b2\<lparr> el_keydown := Suc (el_keydown b2) \<rparr>"
      by (simp_all add: alpineAnnouncement_init_def Let_def r1_def [symmetric])
    with e r1 True show ?thesis
      by (auto simp add: same_setup_def split: if_splits)
  next
    case False
    with assms have "r' = r1" "b' = b\<lparr> el_keydown := Suc (el_keydown b) \<rparr>"
      by (simp_all add: alpineAnnouncement_init_def Let_def r1_def [symmetric])
    with r1 False show ?thesis
      by (auto simp add: same_setup_def split: if_splits)
  qed
qed

lemma goTo_effect:
  assumes "alpineAnnouncement_goTo i (r, b) = (r', b')"
  shows "same_setup (r, b) (r', b') \<and> isClosed r' = isClosed r \<and>
      (if js_ge i (Num 0) \<and> js_lt i (totalMessages r) \<and> js_gt (totalMessages r) (Num 1)
       then \<exists>h. intervalId r' = Some (Suc h) else intervalId r' = intervalId r)"
proof (cases "js_ge i (Num 0) \<and> js_lt i (totalMessages r)")
  case False
  with assms have "r' = r" "b' = b" by (auto simp add: alpineAnnouncement_goTo_def)
  with False show ?thesis by (auto simp add: same_setup_def split: if_splits)
next
  case inr: True
  define r1 where "r1 = r\<lparr> alpineAnnouncement.currentIndex := i \<rparr>"
  have r1: "totalMessages r1 = totalMessages r" "showCloseButton r1 = showCloseButton r"
    "sectionId r1 = sectionId r" "intervalId r1 = intervalId r" "isClosed r1 = isClosed r"
    by (simp_all add: r1_def)
  show ?thesis
  proof (cases "js_gt (totalMessages r) (Num 1)")
    case False
    with assms inr have "r' = r1" "b' = b"
      by (auto simp add: alpineAnnouncement_goTo_def Let_def r1_def)
    with False r1 show ?thesis by (auto simp add: same_setup_def split: if_splits)
  next
    case True
    obtain r2 b2 where s2: "stopRotation (r1, b) = (r2, b2)" by (cases "stopRotation (r1, b)")
    from assms inr True s2 have s3: "startRotation (r2, b2) = (r', b')"
      by (simp add: alpineAnnouncement_goTo_def Let_def r1_def)
    from stopRotation_effect [OF s2] startRotation_effect [OF s3] r1 inr True show ?thesis
      by (auto simp add: same_setup_def split: if_splits)
  qed
qed

lemma closeAnnouncement_effect:
  assumes "closeAnnouncement (r, b) = (r', b')"
  shows "totalMessages r' = totalMessages r \<and> showCloseButton r' = showCloseButton r
     \<and> sectionId r' = sectionId r \<and> isClosed r'
     \<and> (intervalId r \<noteq> Some 0 \<longrightarrow> intervalId r' = None)"
proof -
  obtain r1 b1 where s: "stopRotation (r\<lparr> isClosed := True \<rparr>, b) = (r1, b1)"
    by (cases "stopRotation (r\<lparr> isClosed := True \<rparr>, b)")
  with assms have "r' = r1" by (simp add: closeAnnouncement_def)
  with stopRotation_effect [OF s] show ?thesis by (simp add: same_setup_def)
qed


subsection \<open>Rotation and its timer\<close>

text \<open>Every operation keeps the first invariant, and every guarded one the second.\<close>

lemma inv_step:
  "(weak_inv c \<longrightarrow> weak_inv (step x c)) \<and> (strong_inv c \<and> guarded x c \<longrightarrow> strong_inv (step x c))"
proof -
  obtain r b stopped where c: "c = (r, b, stopped)" by (cases c)
  show ?thesis
  proof (cases x)
    case Init
    obtain r' b' where s: "alpineAnnouncement_init (r, b) = (r', b')"
      by (cases "alpineAnnouncement_init (r, b)")
    note e = init_effect [OF s]
    from e have j: "jar_says_closed r' b' = jar_says_closed r b"
      by (intro jar_says_closed_cong) (simp_all add: same_setup_def)
    from e j Init c s show ?thesis
      by (auto simp add: weak_inv_def strong_inv_def rotation_active_def timer_held_def same_setup_def
          split: if_splits)
  next
    case StartRotation
    obtain r' b' where s: "startRotation (r, b) = (r', b')" by (cases "startRotation (r, b)")
    note e = startRotation_effect [OF s]
    from e have j: "jar_says_closed r' b' = jar_says_closed r b"
      by (intro jar_says_closed_cong) (simp_all add: same_setup_def)
    from e j StartRotation c s show ?thesis
      by (auto simp add: weak_inv_def strong_inv_def rotation_active_def timer_held_def same_setup_def
          with_flag_def)
  next
    case StopRotation
    obtain r' b' where s: "stopRotation (r, b) = (r', b')" by (cases "stopRotation (r, b)")
    note e = stopRotation_effect [OF s]
    from e have j: "jar_says_closed r' b' = jar_says_closed r b"
      by (intro jar_says_closed_cong) (simp_all add: same_setup_def)
    from e j StopRotation c s show ?thesis
      by (auto simp add: weak_inv_def strong_inv_def rotation_active_def timer_held_def same_setup_def
          with_flag_def)
  next
    case PauseRotation
    have j: "jar_says_closed (pauseRotation r) b = jar_says_closed r b"
      by (intro jar_says_closed_cong) (simp_all add: pauseRotation_def)
    from j PauseRotation c show ?thesis
      by (auto simp add: weak_inv_def strong_inv_def rotation_active_def timer_held_def pauseRotation_def)
  next
    case ResumeRotation
    have j: "jar_says_closed (resumeRotation r) b = jar_says_closed r b"
      by (intro jar_says_closed_cong) (simp_all add: resumeRotation_def)
    from j ResumeRotation c show ?thesis
      by (auto simp add: weak_inv_def strong_inv_def rotation_active_def timer_held_def resumeRotation_def)
  next
    case Next
    have j: "jar_says_closed (alpineAnnouncement_next r) b = jar_says_closed r b"
      by (intro jar_says_closed_cong) (simp_all add: alpineAnnouncement_next_def)
    from j Next c show ?thesis
      by (auto simp add: weak_inv_def strong_inv_def rotation_active_def timer_held_def
          alpineAnnouncement_next_def)
  next
    case Previous
    have j: "jar_says_closed (alpineAnnouncement_previous r) b = jar_says_closed r b"
      by (intro jar_says_closed_cong) (simp_all add: alpineAnnouncement_previous_def)
    from j Previous c show ?thesis
      by (auto simp add: weak_inv_def strong_inv_def rotation_active_def timer_held_def
          alpineAnnouncement_previous_def)
  next
    case (GoTo i)
    obtain r' b' where s: "alpineAnnouncement_goTo i (r, b) = (r', b')"
      by (cases "alpineAnnouncement_goTo i (r, b)")
    note e = goTo_effect [OF s]
    from e have j: "jar_says_closed r' b' = jar_says_closed r b"
      by (intro jar_says_closed_cong) (simp_all add: same_setup_def)
    from e j GoTo c s show ?thesis
      by (auto simp add: weak_inv_def strong_inv_def rotation_active_def timer_held_def same_setup_def
          with_flag_def split: if_splits)
  next
    case CloseAnnouncement
    obtain r' b' where s: "closeAnnouncement (r, b) = (r', b')" by (cases "closeAnnouncement (r, b)")
    note e = closeAnnouncement_effect [OF s]
    from e CloseAnnouncement c s show ?thesis
      by (auto simp add: weak_inv_def strong_inv_def rotation_active_def timer_held_def with_flag_def)
  next
    case Destroy
    obtain r' b' where s: "stopRotation (r, b) = (r', b')" by (cases "stopRotation (r, b)")
    note e = stopRotation_effect [OF s]
    from e have j: "jar_says_closed r' b' = jar_says_closed r b"
      by (intro jar_says_closed_cong) (simp_all add: same_setup_def)
    from e j Destroy c s show ?thesis
      by (auto simp add: weak_inv_def strong_inv_def rotation_active_def timer_held_def same_setup_def
          with_flag_def destroy_def)
  qed
qed

lemma weak_inv_run: "weak_inv c \<Longrightarrow> weak_inv (run ops c)"
  by (induction ops arbitrary: c) (simp_all add: inv_step)

lemma strong_inv_run: "strong_inv c \<Longrightarrow> all_guarded ops c \<Longrightarrow> strong_inv (run ops c)"
  by (induction ops arbitrary: c) (simp_all add: inv_step)

lemma attached_inv: "weak_inv (attached m s sid cb b) \<and> strong_inv (attached m s sid cb b)"
proof -
  let ?r = "alpineAnnouncement_new m s sid cb"
  obtain r' b' where s: "alpineAnnouncement_init (?r, b) = (r', b')"
    by (cases "alpineAnnouncement_init (?r, b)")
  note e = init_effect [OF s]
  from e have j: "jar_says_closed r' b' = jar_says_closed ?r b"
    by (intro jar_says_closed_cong) (simp_all add: same_setup_def)
  have n: "intervalId ?r = None" "\<not> isClosed ?r" by (simp_all add: alpineAnnouncement_new_def)
  from e j s n show ?thesis
    by (auto simp add: attached_def weak_inv_def strong_inv_def rotation_active_def timer_held_def
        same_setup_def split: if_splits)
qed

text \<open>
  Claim C7 says that in every state reached from \<^verbatim>\<open>init\<close> by the operations of the bar,
  \<^verbatim>\<open>intervalId\<close> is not \<^verbatim>\<open>null\<close> exactly when the rotation is active. A direct call of
  \<^verbatim>\<open>startRotation\<close> on a bar with one message sets a timer, and so does \<^verbatim>\<open>goTo\<close> on a bar
  that has been closed: in both states the timer is held and the rotation is not active.
\<close>

theorem rotation_invariant_counterexample:
  "timer_held (run [StartRotation] (attached (Num 1) (Num 5000) ''a1'' True empty_browser))
   \<and> \<not> rotation_active (run [StartRotation] (attached (Num 1) (Num 5000) ''a1'' True empty_browser))
   \<and> timer_held (run [CloseAnnouncement, GoTo (Num 1)] (attached (Num 3) (Num 5000) ''a1'' True empty_browser))
   \<and> \<not> rotation_active (run [CloseAnnouncement, GoTo (Num 1)] (attached (Num 3) (Num 5000) ''a1'' True empty_browser))"
  by code_simp

text \<open>
  Claim C7, amended. In every state reached from \<^verbatim>\<open>init\<close> by the operations of the bar,
  \<^verbatim>\<open>intervalId\<close> is not \<^verbatim>\<open>null\<close> if the rotation is active (more than one message, not
  closed, not stopped since it was last started). The converse holds for the runs in
  which \<^verbatim>\<open>startRotation\<close> is called directly only under the guard that \<^verbatim>\<open>init\<close> applies
  (more than one message, not closed) and \<^verbatim>\<open>goTo\<close> only while the bar is not closed.
\<close>

theorem rotation_invariant:
  "(rotation_active (run ops (attached m s sid cb b)) \<longrightarrow> timer_held (run ops (attached m s sid cb b)))
   \<and> (all_guarded ops (attached m s sid cb b) \<longrightarrow>
        (timer_held (run ops (attached m s sid cb b)) \<longleftrightarrow>
         rotation_active (run ops (attached m s sid cb b))))"
proof -
  let ?c = "attached m s sid cb b"
  have "weak_inv (run ops ?c)" using attached_inv weak_inv_run by blast
  moreover have "strong_inv (run ops ?c)" if "all_guarded ops ?c"
    using attached_inv strong_inv_run that by blast
  ultimately show ?thesis
    by (auto simp add: weak_inv_def strong_inv_def rotation_active_def timer_held_def split: prod.splits)
qed

text \<open>The theorem on two guarded runs of a bar with three messages.\<close>

theorem rotation_invariant_witness:
  "all_guarded [PauseRotation, Next, GoTo (Num 2), ResumeRotation]
      (attached (Num 3) (Num 5000) ''a1'' True empty_browser)
   \<and> rotation_active (run [PauseRotation, Next, GoTo (Num 2), ResumeRotation]
      (attached (Num 3) (Num 5000) ''a1'' True empty_browser))
   \<and> timer_held (run [PauseRotation, Next, GoTo (Num 2), ResumeRotation]
      (attached (Num 3) (Num 5000) ''a1'' True empty_browser))
   \<and> all_guarded [GoTo (Num 1), StopRotation, Init, CloseAnnouncement, Init, Destroy]
      (attached (Num 3) (Num 5000) ''a1'' True empty_browser)
   \<and> \<not> rotation_active (run [GoTo (Num 1), StopRotation, Init, CloseAnnouncement, Init, Destroy]
      (attached (Num 3) (Num 5000) ''a1'' True empty_browser))
   \<and> \<not> timer_held (run [GoTo (Num 1), StopRotation, Init, CloseAnnouncement, Init, Destroy]
      (attached (Num 3) (Num 5000) ''a1'' True empty_browser))"
proof -
  let ?c = "attached (Num 3) (Num 5000) ''a1'' True empty_browser"
  let ?ops1 = "[PauseRotation, Next, GoTo (Num 2), ResumeRotation]"
  let ?ops2 = "[GoTo (Num 1), StopRotation, Init, CloseAnnouncement, Init, Destroy]"
  have g1: "all_guarded ?ops1 ?c" by code_simp
  have a1: "rotation_active (run ?ops1 ?c)" by code_simp
  have g2: "all_guarded ?ops2 ?c" by code_simp
  have a2: "\<not> rotation_active (run ?ops2 ?c)" by code_simp
  from rotation_invariant [of ?ops1 "Num 3" "Num 5000" "''a1''" True empty_browser] a1
  have h1: "timer_held (run ?ops1 ?c)" by blast
  from rotation_invariant [of ?ops2 "Num 3" "Num 5000" "''a1''" True empty_browser] g2 a2
  have h2: "\<not> timer_held (run ?ops2 ?c)" by blast
  from g1 a1 h1 g2 a2 h2 show ?thesis by blast
qed

subsection \<open>Reading a cookie back\<close>

text \<open>
  \<open>getCookie\<close> splits the string \<open>; c1; c2; ...\<close> of the cookies at \<open>; name=\<close>. The
  separator starts with a \<open>;\<close>, so it can match only where a cookie starts, and there
  only a cookie that reads as \<open>name=\<close>.
\<close>

lemma split_parts_skip:
  assumes "sep = CHR '';'' # sep'" "CHR '';'' \<notin> set t"
  shows "split_parts sep (t @ u) = (case split_parts sep u of (p, ps) \<Rightarrow> (t @ p, ps))"
  using assms(2)
proof (induction t)
  case Nil
  show ?case by (simp split: prod.splits)
next
  case (Cons c t)
  then have "c \<noteq> CHR '';''" by auto
  then have "\<not> prefix sep (c # t @ u)" using assms(1) by simp
  with Cons show ?case by (simp split: prod.splits)
qed

lemma sep_of_Cons: "sep_of n = CHR '';'' # (CHR '' '' # n @ ''='')"
  by (simp add: sep_of_def)

text \<open>A text without \<open>;\<close> that is a prefix of \<open>s\<close> followed by a \<open>;\<close> is a prefix of \<open>s\<close>.\<close>

lemma prefix_before_semicolon:
  assumes "prefix t (s @ u)" "CHR '';'' \<notin> set t" "u = [] \<or> hd u = CHR '';''"
  shows "prefix t s"
proof (cases "length t \<le> length s")
  case True
  from assms(1) have "t = take (length t) (s @ u)" by (metis append_eq_conv_conj prefix_def)
  with True have "t = take (length t) s" by simp
  then show ?thesis by (metis take_is_prefix)
next
  case False
  then have l: "length s < length t" by simp
  from assms(1) obtain w where w: "s @ u = t @ w" by (auto simp add: prefix_def)
  from l w have "u \<noteq> []" by (metis append_Nil2 length_append less_irrefl_nat trans_less_add1)
  with assms(3) have h: "hd u = CHR '';''" by simp
  from w have "(s @ u) ! length s = (t @ w) ! length s" by simp
  with l \<open>u \<noteq> []\<close> have "hd u = t ! length s" by (simp add: nth_append hd_conv_nth)
  with h l have "CHR '';'' \<in> set t" by (metis nth_mem)
  with assms(2) show ?thesis by simp
qed

lemma blocks_start: "blocks cs = [] \<or> hd (blocks cs) = CHR '';''"
  by (cases cs) (simp_all add: blocks_def)

lemma blocks_Cons: "blocks (c # cs) = ''; '' @ serialize c @ blocks cs"
  by (simp add: blocks_def)

lemma blocks_append: "blocks (xs @ ys) = blocks xs @ blocks ys"
  by (simp add: blocks_def)

lemma split_parts_other:
  assumes "\<not> reads_as n c" "CHR '';'' \<notin> set (serialize c)" "CHR '';'' \<notin> set n"
  shows "split_parts (sep_of n) (''; '' @ serialize c @ blocks cs) =
           (case split_parts (sep_of n) (blocks cs) of (p, ps) \<Rightarrow> (''; '' @ serialize c @ p, ps))"
proof -
  have np: "\<not> prefix (sep_of n) (''; '' @ serialize c @ blocks cs)"
  proof
    assume "prefix (sep_of n) (''; '' @ serialize c @ blocks cs)"
    then have "prefix (n @ ''='') (serialize c @ blocks cs)"
      by (simp add: sep_of_def)
    moreover have "CHR '';'' \<notin> set (n @ ''='')" using assms(3) by simp
    ultimately have "prefix (n @ ''='') (serialize c)"
      using blocks_start [of cs] by (rule prefix_before_semicolon)
    with assms(1) show False by (simp add: reads_as_def)
  qed
  have t: "CHR '';'' \<notin> set (CHR '' '' # serialize c)"
    using assms(2) by simp
  have "split_parts (sep_of n) (''; '' @ serialize c @ blocks cs) =
      (case split_parts (sep_of n) ((CHR '' '' # serialize c) @ blocks cs) of (p, ps) \<Rightarrow> (CHR '';'' # p, ps))"
    using np by (simp add: sep_of_Cons)
  also have "split_parts (sep_of n) ((CHR '' '' # serialize c) @ blocks cs) =
      (case split_parts (sep_of n) (blocks cs) of (p, ps) \<Rightarrow> ((CHR '' '' # serialize c) @ p, ps))"
    by (rule split_parts_skip [OF sep_of_Cons t])
  finally show ?thesis by (simp split: prod.splits)
qed

lemma split_parts_absent:
  assumes "CHR '';'' \<notin> set n"
  shows "\<forall>c \<in> set cs. \<not> reads_as n c \<and> CHR '';'' \<notin> set (serialize c) \<Longrightarrow>
     split_parts (sep_of n) (blocks cs) = (blocks cs, [])"
proof (induction cs)
  case Nil
  show ?case by (simp add: blocks_def)
next
  case (Cons c cs)
  then have c: "\<not> reads_as n c" "CHR '';'' \<notin> set (serialize c)"
    and r: "split_parts (sep_of n) (blocks cs) = (blocks cs, [])" by simp_all
  from split_parts_other [OF c assms, of cs] r show ?case by (simp add: blocks_Cons)
qed

lemma split_parts_match:
  assumes "serialize c = n @ ''='' @ v"
  shows "split_parts (sep_of n) (''; '' @ serialize c @ u) =
           ([], (case split_parts (sep_of n) (v @ u) of (p, ps) \<Rightarrow> p # ps))"
proof -
  have e: "''; '' @ serialize c @ u = sep_of n @ (v @ u)"
    using assms by (simp add: sep_of_def)
  have "prefix (sep_of n) (''; '' @ serialize c @ u)" unfolding e by simp
  moreover have "drop (length (sep_of n)) (''; '' @ serialize c @ u) = v @ u"
    unfolding e by simp
  moreover have "sep_of n \<noteq> []" by (simp add: sep_of_def)
  ultimately show ?thesis
    by (metis (no_types, lifting) append_Cons split_parts.simps(2))
qed

lemma split_parts_present:
  assumes n: "CHR '';'' \<notin> set n"
    and c: "serialize c = n @ ''='' @ v" "CHR '';'' \<notin> set v"
    and post: "\<forall>d \<in> set post. \<not> reads_as n d \<and> CHR '';'' \<notin> set (serialize d)"
  shows "\<forall>d \<in> set pre. \<not> reads_as n d \<and> CHR '';'' \<notin> set (serialize d) \<Longrightarrow>
     split_parts (sep_of n) (blocks (pre @ c # post)) = (blocks pre, [v @ blocks post])"
proof (induction pre)
  case Nil
  have "split_parts (sep_of n) (v @ blocks post) =
      (case split_parts (sep_of n) (blocks post) of (p, ps) \<Rightarrow> (v @ p, ps))"
    by (rule split_parts_skip [OF sep_of_Cons c(2)])
  also have "\<dots> = (v @ blocks post, [])"
    using split_parts_absent [OF n post] by simp
  finally have r: "split_parts (sep_of n) (v @ blocks post) = (v @ blocks post, [])" .
  with split_parts_match [OF c(1), of "blocks post"] show ?case
    by (simp add: blocks_Cons blocks_def)
next
  case (Cons d pre)
  then have d: "\<not> reads_as n d" "CHR '';'' \<notin> set (serialize d)"
    and r: "split_parts (sep_of n) (blocks (pre @ c # post)) = (blocks pre, [v @ blocks post])"
    by simp_all
  from split_parts_other [OF d n, of "pre @ c # post"] r show ?case
    by (simp add: blocks_Cons)
qed

lemma blocks_join: "cs \<noteq> [] \<Longrightarrow> ''; '' @ join ''; '' (map serialize cs) = blocks cs"
proof (induction cs)
  case Nil
  then show ?case by simp
next
  case (Cons c cs)
  then show ?case by (cases cs) (simp_all add: blocks_def)
qed

lemma first_part_value:
  assumes "CHR '';'' \<notin> set v"
  shows "fst (split_parts '';'' (v @ blocks cs)) = v"
proof -
  have "split_parts '';'' (v @ blocks cs) =
      (case split_parts '';'' (blocks cs) of (p, ps) \<Rightarrow> (v @ p, ps))"
    by (rule split_parts_skip [OF _ assms]) simp
  moreover have "fst (split_parts '';'' (blocks cs)) = []"
    by (cases cs) (simp_all add: blocks_def)
  ultimately show ?thesis by (simp split: prod.splits)
qed

text \<open>
  \<open>getCookie\<close> finds the value of the one unexpired cookie that reads as \<open>name=\<close>, when
  no cookie has a \<open>;\<close> in its text.
\<close>

lemma getCookie_present:
  assumes n: "CHR '';'' \<notin> set n"
    and v: "visible b = pre @ c # post"
    and c: "serialize c = n @ ''='' @ v" "CHR '';'' \<notin> set v"
    and pre: "\<forall>d \<in> set pre. \<not> reads_as n d \<and> CHR '';'' \<notin> set (serialize d)"
    and post: "\<forall>d \<in> set post. \<not> reads_as n d \<and> CHR '';'' \<notin> set (serialize d)"
  shows "getCookie n b = Some v"
proof -
  from v have ne: "visible b \<noteq> []" by simp
  have sp: "split_parts (sep_of n) (blocks (visible b)) = (blocks pre, [v @ blocks post])"
    unfolding v by (rule split_parts_present [OF n c post pre])
  have "js_split (''; '' @ n @ ''='') (''; '' @ document_cookie b) = [blocks pre, v @ blocks post]"
    using sp blocks_join [OF ne] by (simp add: js_split_def document_cookie_def sep_of_def)
  moreover have "hd (js_split '';'' (v @ blocks post)) = v"
    using first_part_value [OF c(2), of post] by (auto simp add: js_split_def split: prod.splits)
  ultimately show ?thesis by (simp add: getCookie_def)
qed


subsection \<open>Writing a cookie\<close>

lemma trim_id: "s \<noteq> [] \<Longrightarrow> \<not> is_wsp (hd s) \<Longrightarrow> \<not> is_wsp (last s) \<Longrightarrow> trim s = s"
proof -
  assume a: "s \<noteq> []" "\<not> is_wsp (hd s)" "\<not> is_wsp (last s)"
  then have "dropWhile is_wsp s = s" by (cases s) simp_all
  moreover have "dropWhile is_wsp (rev s) = rev s"
    using a by (cases "rev s") (simp_all add: last_rev [symmetric] hd_rev)
  ultimately show ?thesis by (simp add: trim_def)
qed

lemma store_mem: "c \<in> set (store c cs)"
  by (induction cs) simp_all

lemma store_subset: "set (store c cs) \<subseteq> insert c (set cs)"
  by (induction cs) auto

text \<open>The new cookie takes the place of the one of its name, among the others.\<close>

lemma store_decomp:
  "distinct (map cookie_name cs) \<Longrightarrow>
   \<exists>pre post. store c cs = pre @ c # post
      \<and> (\<forall>d \<in> set pre \<union> set post. d \<in> set cs \<and> cookie_name d \<noteq> cookie_name c)
      \<and> distinct (map cookie_name (pre @ post))"
proof (induction cs)
  case Nil
  have "store c [] = [] @ c # []" by simp
  then show ?case by (intro exI [of _ "[]"]) simp
next
  case (Cons d cs)
  show ?case
  proof (cases "cookie_name d = cookie_name c")
    case True
    with Cons.prems have "cookie_name c \<notin> cookie_name ` set cs" by simp
    then have "\<forall>e \<in> set cs. cookie_name e \<noteq> cookie_name c" by (metis imageI)
    moreover have "store c (d # cs) = [] @ c # cs" using True by simp
    moreover have "distinct (map cookie_name ([] @ cs))" using Cons.prems by simp
    ultimately show ?thesis by (metis Un_iff empty_iff empty_set list.set_intros(2))
  next
    case False
    from Cons obtain pre post where p: "store c cs = pre @ c # post"
      "\<forall>e \<in> set pre \<union> set post. e \<in> set cs \<and> cookie_name e \<noteq> cookie_name c"
      "distinct (map cookie_name (pre @ post))"
      by auto
    have s: "store c (d # cs) = (d # pre) @ c # post" using False p(1) by simp
    have a: "\<forall>e \<in> set (d # pre) \<union> set post. e \<in> set (d # cs) \<and> cookie_name e \<noteq> cookie_name c"
      using p(2) False by auto
    have "cookie_name d \<notin> cookie_name ` set cs" using Cons.prems by simp
    with p(2) have "cookie_name d \<notin> cookie_name ` (set pre \<union> set post)" by blast
    with p(3) have b: "distinct (map cookie_name ((d # pre) @ post))" by auto
    from s a b show ?thesis by blast
  qed
qed

lemma store_wf_store:
  assumes "store_wf cs" "CHR '';'' \<notin> set (serialize c)"
  shows "store_wf (store c cs)"
proof -
  from assms(1) have d: "distinct (map cookie_name cs)" by (simp add: store_wf_def)
  from store_decomp [OF d, of c] obtain pre post where p: "store c cs = pre @ c # post"
      "\<forall>e \<in> set pre \<union> set post. e \<in> set cs \<and> cookie_name e \<noteq> cookie_name c"
      "distinct (map cookie_name (pre @ post))"
    by blast
  have "distinct (map cookie_name (pre @ c # post))" using p(2) p(3) by auto
  moreover have "\<forall>e \<in> set (pre @ c # post). CHR '';'' \<notin> set (serialize e)"
    using p(2) assms by (auto simp add: store_wf_def)
  ultimately show ?thesis unfolding p(1) store_wf_def by blast
qed

lemma takeWhile_stop: "\<not> P y \<Longrightarrow> takeWhile P (xs @ y # ys) = takeWhile P xs"
  by (induction xs) simp_all

lemma literal_chars:
  "\<forall>c \<in> set ''announcement-''. \<not> is_ctl c \<and> c \<noteq> CHR '';'' \<and> c \<noteq> CHR ''=''"
  "\<forall>c \<in> set ''-closed''. \<not> is_ctl c \<and> c \<noteq> CHR '';'' \<and> c \<noteq> CHR ''=''"
  "\<forall>c \<in> set ''true''. \<not> is_ctl c \<and> c \<noteq> CHR '';'' \<and> c \<noteq> CHR ''=''"
  "\<not> is_ctl CHR ''=''"
  by (simp_all add: is_ctl_def)

text \<open>
  The pair \<open>announcement-<sectionId>-closed=true\<close> of a section id that is kept as
  written: its two sides, cut at the first \<open>=\<close>, are not changed by trimming.
\<close>

lemma closed_pair_sides:
  assumes k: "kept_as_written sid"
  defines "str \<equiv> ''announcement-'' @ sid @ ''-closed'' @ ''='' @ ''true''"
  defines "nr \<equiv> takeWhile (\<lambda>c. c \<noteq> CHR ''='') str"
  defines "vr \<equiv> tl (dropWhile (\<lambda>c. c \<noteq> CHR ''='') str)"
  shows "nr \<noteq> [] \<and> trim nr = nr \<and> trim vr = vr \<and> nr @ ''='' @ vr = str
     \<and> nr = takeWhile (\<lambda>c. c \<noteq> CHR ''='') (''announcement-'' @ sid @ ''-closed'')"
proof -
  let ?P = "\<lambda>c. c \<noteq> CHR ''=''"
  have t1: "takeWhile ?P str = ''announcement-'' @ takeWhile ?P (sid @ ''-closed'' @ ''='' @ ''true'')"
    unfolding str_def by (rule takeWhile_append2) auto
  have d1: "dropWhile ?P str = dropWhile ?P (sid @ ''-closed'' @ ''='' @ ''true'')"
    unfolding str_def by (rule dropWhile_append2) auto
  have n0: "nr = takeWhile ?P (''announcement-'' @ sid @ ''-closed'')"
  proof -
    have "str = (''announcement-'' @ sid @ ''-closed'') @ CHR ''='' # ''true''"
      by (simp add: str_def)
    then show ?thesis unfolding nr_def using takeWhile_stop [of "\<lambda>c. c \<noteq> CHR ''=''" "CHR ''=''" "''announcement-'' @ sid @ ''-closed''" "''true''"] by simp
  qed
  have mem: "CHR ''='' \<in> set str" by (simp add: str_def)
  then have dne: "dropWhile ?P str \<noteq> []" by (simp add: dropWhile_eq_Nil_conv)
  then have "hd (dropWhile ?P str) = CHR ''=''" using hd_dropWhile [of "?P" "str"] by simp
  with dne have dv: "dropWhile ?P str = CHR ''='' # vr" unfolding vr_def by (cases "dropWhile ?P str") simp_all
  have whole: "nr @ ''='' @ vr = str"
    using takeWhile_dropWhile_id [of "?P" "str"] dv by (simp add: nr_def)
  have sides: "nr \<noteq> [] \<and> \<not> is_wsp (hd nr) \<and> \<not> is_wsp (last nr)
      \<and> vr \<noteq> [] \<and> \<not> is_wsp (hd vr) \<and> \<not> is_wsp (last vr)"
  proof (cases "CHR ''='' \<in> set sid")
    case False
    then have "takeWhile ?P (sid @ ''-closed'') = sid @ ''-closed''"
      by (intro takeWhile_eq_all_conv [THEN iffD2]) auto
    then have "takeWhile ?P (sid @ ''-closed'' @ ''='' @ ''true'') = sid @ ''-closed''"
      using takeWhile_stop [of "?P" "CHR ''=''" "sid @ ''-closed''" "''true''"] by simp
    with t1 have nr: "nr = ''announcement-'' @ sid @ ''-closed''" by (simp add: nr_def)
    from False have "dropWhile ?P (sid @ ''-closed'' @ ''='' @ ''true'') = dropWhile ?P (''-closed'' @ ''='' @ ''true'')"
      by (intro dropWhile_append2) auto
    with d1 have "dropWhile ?P str = ''='' @ ''true''" by simp
    then have vr: "vr = ''true''" by (simp add: vr_def)
    show ?thesis unfolding nr vr by (simp add: is_wsp_def)
  next
    case True
    define before where "before = takeWhile ?P sid"
    define after where "after = tl (dropWhile ?P sid)"
    from True obtain x where x: "x \<in> set sid" "\<not> ?P x" by auto
    have "takeWhile ?P (sid @ ''-closed'' @ ''='' @ ''true'') = before"
      unfolding before_def using x by (rule takeWhile_append1)
    with t1 have nr: "nr = ''announcement-'' @ before" by (simp add: nr_def)
    have "dropWhile ?P (sid @ ''-closed'' @ ''='' @ ''true'') = dropWhile ?P sid @ ''-closed'' @ ''='' @ ''true''"
      using x by (rule dropWhile_append1)
    moreover have "dropWhile ?P sid \<noteq> []" using True by (simp add: dropWhile_eq_Nil_conv)
    ultimately have vr: "vr = after @ ''-closed'' @ ''='' @ ''true''"
      using d1 unfolding vr_def after_def by (cases "dropWhile ?P sid") simp_all
    from k True have nb: "\<not> (before \<noteq> [] \<and> is_wsp (last before))" "\<not> (after \<noteq> [] \<and> is_wsp (hd after))"
      by (simp_all add: kept_as_written_def blank_at_equals_def Let_def before_def after_def)
    have "\<not> is_wsp (last nr)"
    proof (cases "before = []")
      case True
      then show ?thesis unfolding nr by (simp add: is_wsp_def)
    next
      case False
      with nb(1) show ?thesis unfolding nr by simp
    qed
    moreover have "\<not> is_wsp (hd vr)"
    proof (cases "after = []")
      case True
      then show ?thesis unfolding vr by (simp add: is_wsp_def)
    next
      case False
      with nb(2) show ?thesis unfolding vr by simp
    qed
    moreover have "\<not> is_wsp (last vr)" unfolding vr by (simp add: is_wsp_def)
    moreover have "nr \<noteq> []" "\<not> is_wsp (hd nr)" "vr \<noteq> []" unfolding nr vr by (simp_all add: is_wsp_def)
    ultimately show ?thesis by blast
  qed
  then have "trim nr = nr" "trim vr = vr" by (simp_all add: trim_id)
  with sides whole n0 show ?thesis by blast
qed

lemma assign_closed_cookie:
  assumes k: "kept_as_written sid"
  obtains v where
    "setCookie (''announcement-'' @ sid @ ''-closed'') ''true'' days b =
       b\<lparr> cookies := store
            \<lparr> cookie_name = takeWhile (\<lambda>c. c \<noteq> CHR ''='') (''announcement-'' @ sid @ ''-closed''),
              cookie_value = v, cookie_expires = expires_at (clock b) days \<rparr> (cookies b) \<rparr>"
    and "takeWhile (\<lambda>c. c \<noteq> CHR ''='') (''announcement-'' @ sid @ ''-closed'') \<noteq> []"
    and "takeWhile (\<lambda>c. c \<noteq> CHR ''='') (''announcement-'' @ sid @ ''-closed'') @ ''='' @ v =
         ''announcement-'' @ sid @ ''-closed'' @ ''='' @ ''true''"
proof -
  define str where "str = ''announcement-'' @ sid @ ''-closed'' @ ''='' @ ''true''"
  define nr where "nr = takeWhile (\<lambda>c. c \<noteq> CHR ''='') str"
  define vr where "vr = tl (dropWhile (\<lambda>c. c \<noteq> CHR ''='') str)"
  from closed_pair_sides [OF k]
  have s: "nr \<noteq> []" "trim nr = nr" "trim vr = vr" "nr @ ''='' @ vr = str"
    "nr = takeWhile (\<lambda>c. c \<noteq> CHR ''='') (''announcement-'' @ sid @ ''-closed'')"
    unfolding str_def nr_def vr_def by blast+
  from k have sid: "CHR '';'' \<notin> set sid" "\<forall>c \<in> set sid. \<not> is_ctl c" "length sid \<le> 4072"
    by (simp_all add: kept_as_written_def)
  have ctl: "\<not> (\<exists>c \<in> set str. is_ctl c)"
    using sid(2) literal_chars unfolding str_def by auto
  have semi: "takeWhile (\<lambda>c. c \<noteq> CHR '';'') str = str"
    using sid(1) unfolding str_def by (intro takeWhile_eq_all_conv [THEN iffD2]) auto
  have mem: "CHR ''='' \<in> set str" by (simp add: str_def)
  have "length str = length sid + 25" by (simp add: str_def)
  moreover have "length str = length nr + 1 + length vr" using s(4) [symmetric] by simp
  ultimately have len: "\<not> 4096 < length nr + length vr" using sid(3) by simp
  have "document_cookie_assign str (expires_at (clock b) days) b =
      b\<lparr> cookies := store \<lparr> cookie_name = nr, cookie_value = vr,
             cookie_expires = expires_at (clock b) days \<rparr> (cookies b) \<rparr>"
    unfolding document_cookie_assign_def Let_def semi
    using ctl mem len s(1) s(2) s(3) by (simp add: nr_def [symmetric] vr_def [symmetric])
  then have e: "setCookie (''announcement-'' @ sid @ ''-closed'') ''true'' days b =
      b\<lparr> cookies := store \<lparr> cookie_name = nr, cookie_value = vr,
             cookie_expires = expires_at (clock b) days \<rparr> (cookies b) \<rparr>"
    by (simp add: setCookie_def str_def)
  show ?thesis
  proof (rule that [of vr])
    show "setCookie (''announcement-'' @ sid @ ''-closed'') ''true'' days b =
       b\<lparr> cookies := store
            \<lparr> cookie_name = takeWhile (\<lambda>c. c \<noteq> CHR ''='') (''announcement-'' @ sid @ ''-closed''),
              cookie_value = vr, cookie_expires = expires_at (clock b) days \<rparr> (cookies b) \<rparr>"
      by (rule e [unfolded s(5)])
    show "takeWhile (\<lambda>c. c \<noteq> CHR ''='') (''announcement-'' @ sid @ ''-closed'') \<noteq> []"
      by (rule s(1) [unfolded s(5)])
    show "takeWhile (\<lambda>c. c \<noteq> CHR ''='') (''announcement-'' @ sid @ ''-closed'') @ ''='' @ vr =
         ''announcement-'' @ sid @ ''-closed'' @ ''='' @ ''true''"
      by (rule s(4) [unfolded s(5) str_def])
  qed
qed

text \<open>Every assignment keeps the store well-formed, and the empty store is.\<close>

lemma set_trim: "set (trim s) \<subseteq> set s"
proof -
  have "set (dropWhile is_wsp (rev (dropWhile is_wsp s))) \<subseteq> set (rev (dropWhile is_wsp s))"
    by (rule set_dropWhileD [THEN subsetI]) 
  also have "\<dots> \<subseteq> set s" by (auto dest: set_dropWhileD)
  finally show ?thesis by (simp add: trim_def)
qed

lemma store_wf_assign:
  assumes "store_wf (cookies b)"
  shows "store_wf (cookies (document_cookie_assign str expires b))"
proof -
  define pair where "pair = takeWhile (\<lambda>c. c \<noteq> CHR '';'') str"
  define n where "n = trim (if CHR ''='' \<in> set pair
                          then takeWhile (\<lambda>c. c \<noteq> CHR ''='') pair else [])"
  define v where "v = trim (if CHR ''='' \<in> set pair
                          then tl (dropWhile (\<lambda>c. c \<noteq> CHR ''='') pair) else pair)"
  have p: "CHR '';'' \<notin> set pair" unfolding pair_def by (auto dest: set_takeWhileD)
  have "set n \<subseteq> set pair" unfolding n_def using set_trim [of "takeWhile (\<lambda>c. c \<noteq> CHR ''='') pair"]
    by (auto dest: set_takeWhileD simp add: trim_def)
  then have n1: "CHR '';'' \<notin> set n" using p by auto
  have tl_sub: "set (tl (dropWhile (\<lambda>c. c \<noteq> CHR ''='') pair)) \<subseteq> set pair"
  proof
    fix x assume "x \<in> set (tl (dropWhile (\<lambda>c. c \<noteq> CHR ''='') pair))"
    then have "x \<in> set (dropWhile (\<lambda>c. c \<noteq> CHR ''='') pair)"
      by (cases "dropWhile (\<lambda>c. c \<noteq> CHR ''='') pair") simp_all
    then show "x \<in> set pair" by (rule set_dropWhileD)
  qed
  have "set v \<subseteq> set pair"
  proof (cases "CHR ''='' \<in> set pair")
    case True
    then have "v = trim (tl (dropWhile (\<lambda>c. c \<noteq> CHR ''='') pair))" by (simp add: v_def)
    with set_trim tl_sub show ?thesis by blast
  next
    case False
    then have "v = trim pair" by (simp add: v_def)
    with set_trim show ?thesis by blast
  qed
  then have v1: "CHR '';'' \<notin> set v" using p by auto
  let ?c = "\<lparr> cookie_name = n, cookie_value = v, cookie_expires = expires \<rparr>"
  have ser: "CHR '';'' \<notin> set (serialize ?c)" using n1 v1 by (simp add: serialize_def)
  have "document_cookie_assign str expires b = b
      \<or> document_cookie_assign str expires b = b\<lparr> cookies := store ?c (cookies b) \<rparr>"
    unfolding document_cookie_assign_def Let_def pair_def [symmetric] n_def [symmetric] v_def [symmetric]
    by simp
  then show ?thesis
  proof
    assume "document_cookie_assign str expires b = b"
    with assms show ?thesis by simp
  next
    assume "document_cookie_assign str expires b = b\<lparr> cookies := store ?c (cookies b) \<rparr>"
    with store_wf_store [OF assms ser] show ?thesis by simp
  qed
qed


subsection \<open>Dismissal\<close>

lemma getCookie_empty: "visible b = [] \<Longrightarrow> getCookie n b = None"
proof -
  assume e: "visible b = []"
  have "\<not> prefix (''; '' @ n @ ''='') ''; ''" by simp
  then have "split_parts (''; '' @ n @ ''='') ''; '' = (''; '', [])" by simp
  with e show ?thesis by (simp add: getCookie_def document_cookie_def js_split_def)
qed

text \<open>A cookie whose name and value have more than 4096 bytes is not stored.\<close>

lemma long_cookie_ignored:
  assumes "4072 < length sid" "CHR '';'' \<notin> set sid" "CHR ''='' \<notin> set sid"
  shows "setCookie (''announcement-'' @ sid @ ''-closed'') ''true'' days b = b"
proof (cases "\<exists>c \<in> set (''announcement-'' @ sid @ ''-closed'' @ ''='' @ ''true''). is_ctl c")
  case True
  then show ?thesis by (simp add: setCookie_def document_cookie_assign_def)
next
  case False
  define str where "str = ''announcement-'' @ sid @ ''-closed'' @ ''='' @ ''true''"
  let ?P = "\<lambda>c. c \<noteq> CHR ''=''"
  have semi: "takeWhile (\<lambda>c. c \<noteq> CHR '';'') str = str"
    using assms(2) unfolding str_def by (intro takeWhile_eq_all_conv [THEN iffD2]) auto
  have mem: "CHR ''='' \<in> set str" by (simp add: str_def)
  have all: "takeWhile ?P (''announcement-'' @ sid @ ''-closed'') = ''announcement-'' @ sid @ ''-closed''"
    using assms(3) by (intro takeWhile_eq_all_conv [THEN iffD2]) auto
  have "str = (''announcement-'' @ sid @ ''-closed'') @ CHR ''='' # ''true''" by (simp add: str_def)
  then have tw: "takeWhile ?P str = ''announcement-'' @ sid @ ''-closed''"
    using takeWhile_stop [of "?P" "CHR ''=''" "''announcement-'' @ sid @ ''-closed''" "''true''"] all
    by simp
  have "dropWhile ?P str = dropWhile ?P (CHR ''='' # ''true'')"
    unfolding \<open>str = (''announcement-'' @ sid @ ''-closed'') @ CHR ''='' # ''true''\<close>
    using assms(3) by (intro dropWhile_append2) auto
  then have dw: "tl (dropWhile ?P str) = ''true''" by simp
  have tn: "trim (''announcement-'' @ sid @ ''-closed'') = ''announcement-'' @ sid @ ''-closed''"
    by (rule trim_id) (simp_all add: is_wsp_def)
  have tv: "trim ''true'' = ''true''" by (rule trim_id) (simp_all add: is_wsp_def)
  have len: "4096 < length (''announcement-'' @ sid @ ''-closed'') + length ''true''"
    using assms(1) by simp
  have "document_cookie_assign str (expires_at (clock b) days) b = b"
    unfolding document_cookie_assign_def Let_def semi
    using False mem tw dw tn tv len by (simp add: str_def [symmetric])
  then show ?thesis by (simp add: setCookie_def str_def)
qed

text \<open>A section id of 4073 bytes: the cookie is not stored, and the bar opens again.\<close>

lemma long_section_id_reopens:
  "\<not> isClosed (fst (alpineAnnouncement_init
       (alpineAnnouncement_new (Num 3) (Num 5000) (replicate 4073 CHR ''a'') True,
       snd (closeAnnouncement (alpineAnnouncement_init
         (alpineAnnouncement_new (Num 3) (Num 5000) (replicate 4073 CHR ''a'') True,
          empty_browser))))))"
proof -
  let ?sid = "replicate 4073 CHR ''a''"
  let ?new = "alpineAnnouncement_new (Num 3) (Num 5000) ?sid True"
  obtain r0 b0 where i0: "alpineAnnouncement_init (?new, empty_browser) = (r0, b0)"
    by (cases "alpineAnnouncement_init (?new, empty_browser)")
  from init_effect [OF i0] have s0: "sectionId r0 = ?sid" "cookies b0 = []"
    by (simp_all add: same_setup_def alpineAnnouncement_new_def empty_browser_def)
  obtain ra ba where st: "stopRotation (r0\<lparr> isClosed := True \<rparr>, b0) = (ra, ba)"
    by (cases "stopRotation (r0\<lparr> isClosed := True \<rparr>, b0)")
  from stopRotation_effect [OF st] s0
  have ra: "sectionId ra = ?sid" "cookies ba = []" by (simp_all add: same_setup_def)
  have sid: "4072 < length ?sid" "CHR '';'' \<notin> set ?sid" "CHR ''='' \<notin> set ?sid" by simp_all
  have "closed_cookie ra = ''announcement-'' @ ?sid @ ''-closed''"
    by (simp only: closed_cookie_def ra(1))
  then have "setCookie (closed_cookie ra) ''true'' 30 ba = ba"
    using long_cookie_ignored [OF sid, of 30 ba] by (simp only:)
  with st have "snd (closeAnnouncement (r0, b0)) = ba" by (simp add: closeAnnouncement_def)
  with i0 have b1: "snd (closeAnnouncement (alpineAnnouncement_init (?new, empty_browser))) = ba"
    by simp
  obtain r2 b2 where i2: "alpineAnnouncement_init (?new, ba) = (r2, b2)"
    by (cases "alpineAnnouncement_init (?new, ba)")
  have "visible ba = []" using ra(2) by (simp add: visible_def)
  then have "\<not> jar_says_closed ?new ba" by (simp add: jar_says_closed_def getCookie_empty)
  moreover have "showCloseButton ?new" by (simp add: alpineAnnouncement_new_def)
  ultimately have "\<not> isClosed r2" using init_effect [OF i2] by simp
  with i2 b1 show ?thesis by simp
qed

text \<open>
  Four more cases in which the bar opens again after \<^verbatim>\<open>closeAnnouncement\<close>: a section id
  with a \<open>;\<close>, one with a blank before its \<open>=\<close>, one with a line feed, and a store that
  holds a cookie without a name whose value reads as the cookie of the section.
\<close>

lemma dismissal_lost:
  "\<not> isClosed (fst (alpineAnnouncement_init (alpineAnnouncement_new (Num 3) (Num 5000) ''a;b'' True,
       snd (closeAnnouncement (alpineAnnouncement_init
         (alpineAnnouncement_new (Num 3) (Num 5000) ''a;b'' True, empty_browser))))))
   \<and> intervalId (fst (alpineAnnouncement_init (alpineAnnouncement_new (Num 3) (Num 5000) ''a;b'' True,
       snd (closeAnnouncement (alpineAnnouncement_init
         (alpineAnnouncement_new (Num 3) (Num 5000) ''a;b'' True, empty_browser)))))) \<noteq> None
   \<and> \<not> isClosed (fst (alpineAnnouncement_init (alpineAnnouncement_new (Num 3) (Num 5000) ''a =b'' True,
       snd (closeAnnouncement (alpineAnnouncement_init
         (alpineAnnouncement_new (Num 3) (Num 5000) ''a =b'' True, empty_browser))))))
   \<and> \<not> isClosed (fst (alpineAnnouncement_init
       (alpineAnnouncement_new (Num 3) (Num 5000) [CHR ''a'', CHR 0x0A, CHR ''b''] True,
       snd (closeAnnouncement (alpineAnnouncement_init
         (alpineAnnouncement_new (Num 3) (Num 5000) [CHR ''a'', CHR 0x0A, CHR ''b''] True,
          empty_browser))))))
   \<and> \<not> isClosed (fst (alpineAnnouncement_init (alpineAnnouncement_new (Num 3) (Num 5000) ''a1'' True,
       snd (closeAnnouncement (alpineAnnouncement_init
         (alpineAnnouncement_new (Num 3) (Num 5000) ''a1'' True,
          empty_browser\<lparr> cookies := [\<lparr> cookie_name = [], cookie_value = ''announcement-a1-closed=no'',
                                        cookie_expires = 9000000000 \<rparr>] \<rparr>))))))"
  by code_simp

text \<open>
  Claim C5 says that after \<^verbatim>\<open>closeAnnouncement\<close> a later \<^verbatim>\<open>init\<close> of a bar with the same
  \<^verbatim>\<open>sectionId\<close> and a close button finds the bar closed and starts no timer. It does
  not when the browser does not keep the cookie as it is written, or cannot tell it from
  another: with a section id of 4073 bytes, with the section ids \<open>a;b\<close> and \<open>a =b\<close>,
  with a line feed in the section id, and on a store with a nameless cookie that reads as
  the cookie of the section, \<^verbatim>\<open>init\<close> finds the bar open.
\<close>

theorem dismissal_roundtrip_counterexample:
  "\<not> isClosed (fst (alpineAnnouncement_init
       (alpineAnnouncement_new (Num 3) (Num 5000) (replicate 4073 CHR ''a'') True,
       snd (closeAnnouncement (alpineAnnouncement_init
         (alpineAnnouncement_new (Num 3) (Num 5000) (replicate 4073 CHR ''a'') True,
          empty_browser))))))
   \<and> (\<not> isClosed (fst (alpineAnnouncement_init (alpineAnnouncement_new (Num 3) (Num 5000) ''a;b'' True,
       snd (closeAnnouncement (alpineAnnouncement_init
         (alpineAnnouncement_new (Num 3) (Num 5000) ''a;b'' True, empty_browser))))))
   \<and> intervalId (fst (alpineAnnouncement_init (alpineAnnouncement_new (Num 3) (Num 5000) ''a;b'' True,
       snd (closeAnnouncement (alpineAnnouncement_init
         (alpineAnnouncement_new (Num 3) (Num 5000) ''a;b'' True, empty_browser)))))) \<noteq> None
   \<and> \<not> isClosed (fst (alpineAnnouncement_init (alpineAnnouncement_new (Num 3) (Num 5000) ''a =b'' True,
       snd (closeAnnouncement (alpineAnnouncement_init
         (alpineAnnouncement_new (Num 3) (Num 5000) ''a =b'' True, empty_browser))))))
   \<and> \<not> isClosed (fst (alpineAnnouncement_init
       (alpineAnnouncement_new (Num 3) (Num 5000) [CHR ''a'', CHR 0x0A, CHR ''b''] True,
       snd (closeAnnouncement (alpineAnnouncement_init
         (alpineAnnouncement_new (Num 3) (Num 5000) [CHR ''a'', CHR 0x0A, CHR ''b''] True,
          empty_browser))))))
   \<and> \<not> isClosed (fst (alpineAnnouncement_init (alpineAnnouncement_new (Num 3) (Num 5000) ''a1'' True,
       snd (closeAnnouncement (alpineAnnouncement_init
         (alpineAnnouncement_new (Num 3) (Num 5000) ''a1'' True,
          empty_browser\<lparr> cookies := [\<lparr> cookie_name = [], cookie_value = ''announcement-a1-closed=no'',
                                        cookie_expires = 9000000000 \<rparr>] \<rparr>)))))))"
proof (rule conjI)
  show "\<not> isClosed (fst (alpineAnnouncement_init
       (alpineAnnouncement_new (Num 3) (Num 5000) (replicate 4073 CHR ''a'') True,
       snd (closeAnnouncement (alpineAnnouncement_init
         (alpineAnnouncement_new (Num 3) (Num 5000) (replicate 4073 CHR ''a'') True,
          empty_browser))))))"
    by (rule long_section_id_reopens)
  show "\<not> isClosed (fst (alpineAnnouncement_init (alpineAnnouncement_new (Num 3) (Num 5000) ''a;b'' True,
       snd (closeAnnouncement (alpineAnnouncement_init
         (alpineAnnouncement_new (Num 3) (Num 5000) ''a;b'' True, empty_browser))))))
   \<and> intervalId (fst (alpineAnnouncement_init (alpineAnnouncement_new (Num 3) (Num 5000) ''a;b'' True,
       snd (closeAnnouncement (alpineAnnouncement_init
         (alpineAnnouncement_new (Num 3) (Num 5000) ''a;b'' True, empty_browser)))))) \<noteq> None
   \<and> \<not> isClosed (fst (alpineAnnouncement_init (alpineAnnouncement_new (Num 3) (Num 5000) ''a =b'' True,
       snd (closeAnnouncement (alpineAnnouncement_init
         (alpineAnnouncement_new (Num 3) (Num 5000) ''a =b'' True, empty_browser))))))
   \<and> \<not> isClosed (fst (alpineAnnouncement_init
       (alpineAnnouncement_new (Num 3) (Num 5000) [CHR ''a'', CHR 0x0A, CHR ''b''] True,
       snd (closeAnnouncement (alpineAnnouncement_init
         (alpineAnnouncement_new (Num 3) (Num 5000) [CHR ''a'', CHR 0x0A, CHR ''b''] True,
          empty_browser))))))
   \<and> \<not> isClosed (fst (alpineAnnouncement_init (alpineAnnouncement_new (Num 3) (Num 5000) ''a1'' True,
       snd (closeAnnouncement (alpineAnnouncement_init
         (alpineAnnouncement_new (Num 3) (Num 5000) ''a1'' True,
          empty_browser\<lparr> cookies := [\<lparr> cookie_name = [], cookie_value = ''announcement-a1-closed=no'',
                                        cookie_expires = 9000000000 \<rparr>] \<rparr>))))))"
    by (rule dismissal_lost)
qed

text \<open>
  Claim C5, amended. Let the \<^verbatim>\<open>sectionId\<close> be kept as written by the browser: no \<open>;\<close>,
  no control character, no blank or tab next to its first \<open>=\<close>, at most 4072 bytes. Let
  the cookie store hold one cookie for a name, no cookie with a \<open>;\<close> in its text, and no
  cookie under another name that reads as \<open>announcement-<sectionId>-closed=\<close>. Then
  after \<^verbatim>\<open>closeAnnouncement\<close> the store holds the cookie
  \<open>announcement-<sectionId>-closed=true\<close>, expiring 30 days later; and an \<^verbatim>\<open>init\<close> of a
  new bar with the same \<^verbatim>\<open>sectionId\<close> and a close button, run on the store as
  \<^verbatim>\<open>closeAnnouncement\<close> left it and before the cookie expires, reads the cookie, sets
  \<^verbatim>\<open>isClosed\<close> and starts no timer: \<^verbatim>\<open>intervalId\<close> stays \<^verbatim>\<open>null\<close>.
\<close>

theorem dismissal_roundtrip:
  assumes sid: "kept_as_written (sectionId r)"
    and jar: "store_ready (closed_cookie r) (cookies b)"
    and close: "closeAnnouncement (r, b) = (r1, b1)"
    and later: "cookies b' = cookies b1" "clock b' < expires_at (clock b) 30"
    and init: "alpineAnnouncement_init (alpineAnnouncement_new m s (sectionId r) True, b') = (r2, b2)"
  shows "isClosed r1
     \<and> (\<exists>c \<in> set (cookies b1). serialize c = closed_cookie r @ ''=true''
            \<and> cookie_expires c = expires_at (clock b) 30)
     \<and> getCookie (closed_cookie r) b' = Some ''true''
     \<and> isClosed r2 \<and> intervalId r2 = None \<and> intervals b2 = intervals b'"
proof -
  let ?n = "''announcement-'' @ sectionId r @ ''-closed''"
  let ?key = "takeWhile (\<lambda>c. c \<noteq> CHR ''='') ?n"
  have cc: "closed_cookie r = ?n" by (simp add: closed_cookie_def)
  obtain ra ba where st: "stopRotation (r\<lparr> isClosed := True \<rparr>, b) = (ra, ba)"
    by (cases "stopRotation (r\<lparr> isClosed := True \<rparr>, b)")
  from stopRotation_effect [OF st]
  have ra: "sectionId ra = sectionId r" "isClosed ra" "cookies ba = cookies b" "clock ba = clock b"
    by (simp_all add: same_setup_def)
  from close st have r1: "r1 = ra" and b1: "b1 = setCookie (closed_cookie ra) ''true'' 30 ba"
    by (auto simp add: closeAnnouncement_def)
  obtain v where
    a: "setCookie ?n ''true'' 30 ba =
          ba\<lparr> cookies := store \<lparr> cookie_name = ?key, cookie_value = v,
                 cookie_expires = expires_at (clock ba) 30 \<rparr> (cookies ba) \<rparr>"
    and ne: "?key \<noteq> []"
    and whole: "?key @ ''='' @ v = ''announcement-'' @ sectionId r @ ''-closed'' @ ''='' @ ''true''"
    by (rule assign_closed_cookie [OF sid, of 30 ba])
  define c0 where "c0 = \<lparr> cookie_name = ?key, cookie_value = v,
      cookie_expires = expires_at (clock b) 30 \<rparr>"
  have c0: "cookie_name c0 = ?key" "cookie_expires c0 = expires_at (clock b) 30"
    by (simp_all add: c0_def)
  have "serialize c0 = ?key @ ''='' @ v"
    using ne by (simp add: c0_def serialize_def)
  also note whole
  also have "''announcement-'' @ sectionId r @ ''-closed'' @ ''='' @ ''true'' = ?n @ ''='' @ ''true''"
    by simp
  finally have ser: "serialize c0 = ?n @ ''='' @ ''true''" .
  have "closed_cookie ra = ?n" by (simp only: closed_cookie_def ra(1))
  with b1 have "b1 = setCookie ?n ''true'' 30 ba" by (simp only:)
  also note a
  finally have "cookies b1 = store \<lparr> cookie_name = ?key, cookie_value = v,
                 cookie_expires = expires_at (clock ba) 30 \<rparr> (cookies ba)"
    by simp
  then have jar1: "cookies b1 = store c0 (cookies b)"
    by (simp only: c0_def ra(3) ra(4))
  from sid have semi: "CHR '';'' \<notin> set ?n" by (simp add: kept_as_written_def)
  from jar have wf: "distinct (map cookie_name (cookies b))"
    "\<forall>d \<in> set (cookies b). CHR '';'' \<notin> set (serialize d)"
    "\<forall>d \<in> set (cookies b). cookie_name d \<noteq> ?key \<longrightarrow> \<not> reads_as ?n d"
    unfolding cc by (simp_all add: store_ready_def store_wf_def)
  from store_decomp [OF wf(1), of c0] obtain pre post where
    d: "store c0 (cookies b) = pre @ c0 # post"
    and others: "\<forall>d \<in> set pre \<union> set post. d \<in> set (cookies b) \<and> cookie_name d \<noteq> cookie_name c0"
    by blast
  let ?Q = "\<lambda>c. clock b' < cookie_expires c"
  have vis: "visible b' = filter ?Q pre @ c0 # filter ?Q post"
    unfolding visible_def later(1) jar1 d using later(2) c0(2) by simp
  have quiet: "\<not> reads_as ?n e \<and> CHR '';'' \<notin> set (serialize e)"
    if "e \<in> set pre \<union> set post" for e
    using that others wf(2) wf(3) c0(1) by auto
  have get0: "getCookie ?n b' = Some ''true''"
  proof (rule getCookie_present [OF semi vis])
    show "serialize c0 = ?n @ ''='' @ ''true''" by (rule ser)
    show "CHR '';'' \<notin> set ''true''" by simp
    show "\<forall>d \<in> set (filter ?Q pre). \<not> reads_as ?n d \<and> CHR '';'' \<notin> set (serialize d)"
      using quiet by simp
    show "\<forall>d \<in> set (filter ?Q post). \<not> reads_as ?n d \<and> CHR '';'' \<notin> set (serialize d)"
      using quiet by simp
  qed
  from get0 have get: "getCookie (closed_cookie r) b' = Some ''true''" by (simp only: cc)
  have "c0 \<in> set (cookies b1)" unfolding jar1 d by simp
  moreover have "serialize c0 = closed_cookie r @ ''=true''" using ser by (simp only: cc) simp
  ultimately have stored: "\<exists>c \<in> set (cookies b1). serialize c = closed_cookie r @ ''=true''
      \<and> cookie_expires c = expires_at (clock b) 30"
    using c0(2) by blast
  let ?new = "alpineAnnouncement_new m s (sectionId r) True"
  have said: "jar_says_closed ?new b'"
  proof -
    have "closed_cookie ?new = closed_cookie r"
      by (simp add: closed_cookie_def alpineAnnouncement_new_def)
    with get show ?thesis by (simp only: jar_says_closed_def)
  qed
  have new: "showCloseButton ?new" "intervalId ?new = None"
    by (simp_all add: alpineAnnouncement_new_def)
  from init_effect [OF init] said new
  have r2: "isClosed r2" "intervalId r2 = None" by simp_all
  have "closed_cookie ?new = closed_cookie r"
    by (simp add: closed_cookie_def alpineAnnouncement_new_def)
  with get have g: "getCookie (closed_cookie ?new) b' = Some ''true''" by (simp only:)
  have "snd (alpineAnnouncement_init (?new, b')) = b'\<lparr> el_keydown := Suc (el_keydown b') \<rparr>"
    unfolding alpineAnnouncement_init_def Let_def using g new(1) by simp
  with init have "intervals b2 = intervals b'" by simp
  with r1 ra(2) stored get r2 show ?thesis by blast
qed

text \<open>
  The theorem for the section \<open>a=b\<close>, on a store with two other cookies, one day after
  the bar was closed.
\<close>

theorem dismissal_roundtrip_witness:
  "kept_as_written ''a=b''
   \<and> store_ready ''announcement-a=b-closed''
        [\<lparr> cookie_name = ''cart'', cookie_value = ''c1'', cookie_expires = 9000000000 \<rparr>,
         \<lparr> cookie_name = [], cookie_value = ''seen'', cookie_expires = 9000000000 \<rparr>]
   \<and> isClosed (fst (alpineAnnouncement_init (alpineAnnouncement_new (Num 3) (Num 5000) ''a=b'' True,
       (snd (closeAnnouncement (alpineAnnouncement_new (Num 3) (Num 5000) ''a=b'' True,
          \<lparr> cookies = [\<lparr> cookie_name = ''cart'', cookie_value = ''c1'', cookie_expires = 9000000000 \<rparr>,
                       \<lparr> cookie_name = [], cookie_value = ''seen'', cookie_expires = 9000000000 \<rparr>],
            clock = 1000, intervals = [], lastHandle = 0, el_keydown = 0 \<rparr>)))
       \<lparr> clock := 24 * 60 * 60 * 1000 \<rparr>)))
   \<and> intervalId (fst (alpineAnnouncement_init (alpineAnnouncement_new (Num 3) (Num 5000) ''a=b'' True,
       (snd (closeAnnouncement (alpineAnnouncement_new (Num 3) (Num 5000) ''a=b'' True,
          \<lparr> cookies = [\<lparr> cookie_name = ''cart'', cookie_value = ''c1'', cookie_expires = 9000000000 \<rparr>,
                       \<lparr> cookie_name = [], cookie_value = ''seen'', cookie_expires = 9000000000 \<rparr>],
            clock = 1000, intervals = [], lastHandle = 0, el_keydown = 0 \<rparr>)))
       \<lparr> clock := 24 * 60 * 60 * 1000 \<rparr>))) = None"
proof -
  let ?r = "alpineAnnouncement_new (Num 3) (Num 5000) ''a=b'' True"
  let ?jar = "[\<lparr> cookie_name = ''cart'', cookie_value = ''c1'', cookie_expires = 9000000000 \<rparr>,
               \<lparr> cookie_name = [], cookie_value = ''seen'', cookie_expires = 9000000000 \<rparr>]"
  let ?b = "\<lparr> cookies = ?jar, clock = 1000, intervals = [], lastHandle = 0, el_keydown = 0 \<rparr>"
  let ?b' = "(snd (closeAnnouncement (?r, ?b)))\<lparr> clock := 24 * 60 * 60 * 1000 \<rparr>"
  have k0: "kept_as_written ''a=b''" by code_simp
  have j0: "store_ready ''announcement-a=b-closed'' ?jar" by code_simp
  have sid: "sectionId ?r = ''a=b''" by (simp add: alpineAnnouncement_new_def)
  have k: "kept_as_written (sectionId ?r)" unfolding sid by (rule k0)
  have "closed_cookie ?r = ''announcement-a=b-closed''"
    by (simp add: closed_cookie_def alpineAnnouncement_new_def)
  with j0 have j: "store_ready (closed_cookie ?r) (cookies ?b)" by simp
  have c: "closeAnnouncement (?r, ?b) = (fst (closeAnnouncement (?r, ?b)), snd (closeAnnouncement (?r, ?b)))"
    by simp
  have l1: "cookies ?b' = cookies (snd (closeAnnouncement (?r, ?b)))" by simp
  have l2: "clock ?b' < expires_at (clock ?b) 30" by (simp add: expires_at_def)
  have i: "alpineAnnouncement_init (alpineAnnouncement_new (Num 3) (Num 5000) (sectionId ?r) True, ?b') =
      (fst (alpineAnnouncement_init (?r, ?b')), snd (alpineAnnouncement_init (?r, ?b')))"
    unfolding sid by simp
  from dismissal_roundtrip [OF k j c l1 l2 i]
  have "isClosed (fst (alpineAnnouncement_init (?r, ?b')))
      \<and> intervalId (fst (alpineAnnouncement_init (?r, ?b'))) = None"
    by blast
  with k0 j0 show ?thesis by blast
qed

end
